theory Spec2Isabelle
  imports Main
begin

section \<open>Values, errors and log records\<close>

text \<open>
  A Go \<open>error\<close> value is represented by the text its \<open>Error()\<close> method returns; the
  nil error is \<open>None\<close> of \<open>goerror option\<close>.
\<close>

datatype goerror = GoError string

fun ErrorText :: "goerror \<Rightarrow> string" where
  "ErrorText (GoError s) = s"

text \<open>
  The dynamic values an \<open>interface{}\<close> argument can hold, as far as \<open>CheckErr\<close>
  distinguishes them: the type assertion \<open>value.(*http.Response)\<close> only separates
  response pointers from everything else. \<open>'r\<close> is the type of the responses pointed to;
  \<open>VNilResponse\<close> is a nil \<open>*http.Response\<close> stored in the interface, which the type
  assertion accepts like any other response pointer.
\<close>

datatype 'r val =
    VNil
  | VString string
  | VError goerror
  | VResponse 'r
  | VNilResponse
  | VSlice "'r val list"
  | VOther nat

text \<open>The levels of zapcore, with their numeric order (\<open>DebugLevel = -1\<close> ... \<open>FatalLevel = 5\<close>).\<close>

datatype zapLevel =
  DebugLevel | InfoLevel | WarnLevel | ErrorLevel | DPanicLevel | PanicLevel | FatalLevel

fun level_num :: "zapLevel \<Rightarrow> int" where
  "level_num DebugLevel = -1"
| "level_num InfoLevel = 0"
| "level_num WarnLevel = 1"
| "level_num ErrorLevel = 2"
| "level_num DPanicLevel = 3"
| "level_num PanicLevel = 4"
| "level_num FatalLevel = 5"

text \<open>
  The part of \<open>zap.Config\<close> the facade sets or relies on. A logger built from a
  configuration is represented by that configuration.
\<close>

record Config =
  Level :: zapLevel
  Encoding :: string
  Development :: bool

record Logger =
  sugaredLogger :: Config

text \<open>
  A record written to the sink is the call that produced it: its level, whether it came
  from a key/value method (\<open>Errorw\<close>) or a printf method (\<open>Errorf\<close>), the message or
  template, and the variadic arguments exactly as the call received them.
\<close>

datatype call_style = KeyVals | Printf

record 'r entry =
  e_level :: zapLevel
  e_style :: call_style
  e_text :: string
  e_args :: "'r val list"

text \<open>How a call ends: it returns, it panics, or the process exits.\<close>

datatype gopanic = NilDereference | LoggerPanic | InitFailed | IndexOutOfRange

datatype 'a result = Return 'a | Panics gopanic | Exits

text \<open>
  The package state: the \<open>sync.Once\<close> guard, the global \<open>logger\<close> pointer, the records
  written so far, and the backing arrays of slices (an address is an index into \<open>heap\<close>).
\<close>

record 'r world =
  once :: bool
  logger :: "Logger option"
  written :: "'r entry list"
  heap :: "'r val list list"

section \<open>The zap library, as far as the facade uses it\<close>

definition zap_NewDevelopmentConfig :: Config where
  "zap_NewDevelopmentConfig =
     \<lparr>Level = DebugLevel, Encoding = ''console'', Development = True\<rparr>"

definition zap_NewProductionConfig :: Config where
  "zap_NewProductionConfig =
     \<lparr>Level = InfoLevel, Encoding = ''json'', Development = False\<rparr>"

definition Enabled :: "Config \<Rightarrow> zapLevel \<Rightarrow> bool" where
  "Enabled c l = (level_num (Level c) \<le> level_num l)"

text \<open>
  What follows the write: \<open>PanicLevel\<close> panics, \<open>FatalLevel\<close> exits, \<open>DPanicLevel\<close>
  panics in development mode only.
\<close>

definition after_write :: "Config \<Rightarrow> zapLevel \<Rightarrow> unit result" where
  "after_write c l =
     (if l = PanicLevel then Panics LoggerPanic
      else if l = FatalLevel then Exits
      else if l = DPanicLevel \<and> Development c then Panics LoggerPanic
      else Return ())"

text \<open>
  A call of a logging method at level \<open>l\<close>. \<open>written\<close> lists, in order, the calls that
  passed the level filter, each with the arguments it was given. Records that zap adds
  on its own account (its complaint about a key without a value or a key that is not a
  string) are not calls of the facade and are not listed.
\<close>

definition zap_log ::
  "Config \<Rightarrow> zapLevel \<Rightarrow> call_style \<Rightarrow> string \<Rightarrow> 'r val list \<Rightarrow> 'r world
    \<Rightarrow> unit result \<times> 'r world" where
  "zap_log c l sty t as w =
     (after_write c l,
      if Enabled c l
      then w\<lparr>written := written w @ [\<lparr>e_level = l, e_style = sty, e_text = t, e_args = as\<rparr>]\<rparr>
      else w)"

definition Debugw :: "Config \<Rightarrow> string \<Rightarrow> 'r val list \<Rightarrow> 'r world \<Rightarrow> unit result \<times> 'r world"
  where "Debugw c = zap_log c DebugLevel KeyVals"
definition Infow :: "Config \<Rightarrow> string \<Rightarrow> 'r val list \<Rightarrow> 'r world \<Rightarrow> unit result \<times> 'r world"
  where "Infow c = zap_log c InfoLevel KeyVals"
definition Warnw :: "Config \<Rightarrow> string \<Rightarrow> 'r val list \<Rightarrow> 'r world \<Rightarrow> unit result \<times> 'r world"
  where "Warnw c = zap_log c WarnLevel KeyVals"
definition Errorw :: "Config \<Rightarrow> string \<Rightarrow> 'r val list \<Rightarrow> 'r world \<Rightarrow> unit result \<times> 'r world"
  where "Errorw c = zap_log c ErrorLevel KeyVals"
definition Fatalw :: "Config \<Rightarrow> string \<Rightarrow> 'r val list \<Rightarrow> 'r world \<Rightarrow> unit result \<times> 'r world"
  where "Fatalw c = zap_log c FatalLevel KeyVals"
definition Panicw :: "Config \<Rightarrow> string \<Rightarrow> 'r val list \<Rightarrow> 'r world \<Rightarrow> unit result \<times> 'r world"
  where "Panicw c = zap_log c PanicLevel KeyVals"
definition Debugf :: "Config \<Rightarrow> string \<Rightarrow> 'r val list \<Rightarrow> 'r world \<Rightarrow> unit result \<times> 'r world"
  where "Debugf c = zap_log c DebugLevel Printf"
definition Infof :: "Config \<Rightarrow> string \<Rightarrow> 'r val list \<Rightarrow> 'r world \<Rightarrow> unit result \<times> 'r world"
  where "Infof c = zap_log c InfoLevel Printf"
definition Warnf :: "Config \<Rightarrow> string \<Rightarrow> 'r val list \<Rightarrow> 'r world \<Rightarrow> unit result \<times> 'r world"
  where "Warnf c = zap_log c WarnLevel Printf"
definition Errorf :: "Config \<Rightarrow> string \<Rightarrow> 'r val list \<Rightarrow> 'r world \<Rightarrow> unit result \<times> 'r world"
  where "Errorf c = zap_log c ErrorLevel Printf"
definition DPanicf :: "Config \<Rightarrow> string \<Rightarrow> 'r val list \<Rightarrow> 'r world \<Rightarrow> unit result \<times> 'r world"
  where "DPanicf c = zap_log c DPanicLevel Printf"
definition Fatalf :: "Config \<Rightarrow> string \<Rightarrow> 'r val list \<Rightarrow> 'r world \<Rightarrow> unit result \<times> 'r world"
  where "Fatalf c = zap_log c FatalLevel Printf"
definition Panicf :: "Config \<Rightarrow> string \<Rightarrow> 'r val list \<Rightarrow> 'r world \<Rightarrow> unit result \<times> 'r world"
  where "Panicf c = zap_log c PanicLevel Printf"

text \<open>
  The key/value methods read their variadic arguments as alternating keys and values; an
  argument left without a partner is not a field.
\<close>

fun keyvals :: "'a list \<Rightarrow> ('a \<times> 'a) list" where
  "keyvals (k # v # rest) = (k, v) # keyvals rest"
| "keyvals _ = []"

section \<open>Construction and the global handle\<close>

text \<open>
  \<open>NewLogger\<close>: \<open>build\<close> stands for \<open>config.Build()\<close>, which may fail with an error.
\<close>

definition NewLogger :: "(Config \<Rightarrow> goerror option) \<Rightarrow> bool \<Rightarrow> goerror + Logger" where
  "NewLogger build isDevelopment =
     (let config =
        (if isDevelopment
         then zap_NewDevelopmentConfig\<lparr>Encoding := ''console''\<rparr>
         else zap_NewProductionConfig\<lparr>Encoding := ''json''\<rparr>)
      in case build config of
           Some err \<Rightarrow> Inl err
         | None \<Rightarrow> Inr \<lparr>sugaredLogger = config\<rparr>)"

text \<open>
  \<open>InitLogger\<close>: \<open>once.Do\<close> runs its function on the first call only; a call whose function
  panics still counts as done.
\<close>

definition InitLogger ::
  "(Config \<Rightarrow> goerror option) \<Rightarrow> bool \<Rightarrow> 'r world \<Rightarrow> unit result \<times> 'r world" where
  "InitLogger build isDevelopment w =
     (if once w then (Return (), w)
      else case NewLogger build isDevelopment of
             Inl err \<Rightarrow> (Panics InitFailed, w\<lparr>once := True, logger := None\<rparr>)
           | Inr l \<Rightarrow> (Return (), w\<lparr>once := True, logger := Some l\<rparr>))"

definition GetLogger :: "'r world \<Rightarrow> Logger option" where
  "GetLogger w = logger w"

text \<open>The state of the package when the program starts.\<close>

definition start :: "'r val list list \<Rightarrow> 'r world" where
  "start h = \<lparr>once = False, logger = None, written = [], heap = h\<rparr>"

text \<open>
  \<open>GetLogger().sugaredLogger.M(...)\<close>: reading the field through a nil pointer panics.
\<close>

definition via_logger ::
  "(Config \<Rightarrow> 'r world \<Rightarrow> unit result \<times> 'r world) \<Rightarrow> 'r world \<Rightarrow> unit result \<times> 'r world" where
  "via_logger m w =
     (case GetLogger w of
        None \<Rightarrow> (Panics NilDereference, w)
      | Some l \<Rightarrow> m (sugaredLogger l) w)"

definition Info :: "string \<Rightarrow> 'r val list \<Rightarrow> 'r world \<Rightarrow> unit result \<times> 'r world" where
  "Info msg keysAndValues = via_logger (\<lambda>c. Infow c msg keysAndValues)"
definition Debug :: "string \<Rightarrow> 'r val list \<Rightarrow> 'r world \<Rightarrow> unit result \<times> 'r world" where
  "Debug msg keysAndValues = via_logger (\<lambda>c. Debugw c msg keysAndValues)"
definition Warn :: "string \<Rightarrow> 'r val list \<Rightarrow> 'r world \<Rightarrow> unit result \<times> 'r world" where
  "Warn msg keysAndValues = via_logger (\<lambda>c. Warnw c msg keysAndValues)"
definition Error :: "string \<Rightarrow> 'r val list \<Rightarrow> 'r world \<Rightarrow> unit result \<times> 'r world" where
  "Error msg keysAndValues = via_logger (\<lambda>c. Errorw c msg keysAndValues)"
definition Fatal :: "string \<Rightarrow> 'r val list \<Rightarrow> 'r world \<Rightarrow> unit result \<times> 'r world" where
  "Fatal msg keysAndValues = via_logger (\<lambda>c. Fatalw c msg keysAndValues)"
definition Panic :: "string \<Rightarrow> 'r val list \<Rightarrow> 'r world \<Rightarrow> unit result \<times> 'r world" where
  "Panic msg keysAndValues = via_logger (\<lambda>c. Panicw c msg keysAndValues)"
definition Debugf' :: "string \<Rightarrow> 'r val list \<Rightarrow> 'r world \<Rightarrow> unit result \<times> 'r world" where
  "Debugf' template as = via_logger (\<lambda>c. Debugf c template as)"
definition Infof' :: "string \<Rightarrow> 'r val list \<Rightarrow> 'r world \<Rightarrow> unit result \<times> 'r world" where
  "Infof' template as = via_logger (\<lambda>c. Infof c template as)"
definition Warnf' :: "string \<Rightarrow> 'r val list \<Rightarrow> 'r world \<Rightarrow> unit result \<times> 'r world" where
  "Warnf' template as = via_logger (\<lambda>c. Warnf c template as)"
definition Errorf' :: "string \<Rightarrow> 'r val list \<Rightarrow> 'r world \<Rightarrow> unit result \<times> 'r world" where
  "Errorf' template as = via_logger (\<lambda>c. Errorf c template as)"
definition Fatalf' :: "string \<Rightarrow> 'r val list \<Rightarrow> 'r world \<Rightarrow> unit result \<times> 'r world" where
  "Fatalf' template as = via_logger (\<lambda>c. Fatalf c template as)"
definition Panicf' :: "string \<Rightarrow> 'r val list \<Rightarrow> 'r world \<Rightarrow> unit result \<times> 'r world" where
  "Panicf' template as = via_logger (\<lambda>c. Panicf c template as)"

text \<open>
  The type assertion \<open>resp, ok := value.(*http.Response)\<close>: it succeeds on every value
  of that type, the nil pointer included.
\<close>

datatype 'r pointer = NilPtr | Ptr 'r

fun as_response :: "'r val \<Rightarrow> 'r pointer option" where
  "as_response (VResponse resp) = Some (Ptr resp)"
| "as_response VNilResponse = Some NilPtr"
| "as_response _ = None"

section \<open>\<open>CheckErr\<close> of package golog (src/golog/golog.go)\<close>

text \<open>
  \<open>CheckErr(err, message, panic)\<close> logs through the printf methods with the template
  \<open>"%s: %v"\<close> and the arguments \<open>message, err\<close>.
\<close>

definition CheckErr_golog ::
  "goerror option \<Rightarrow> string \<Rightarrow> bool \<Rightarrow> 'r world \<Rightarrow> bool result \<times> 'r world" where
  "CheckErr_golog err message panic w =
     (case err of
        None \<Rightarrow> (Return False, w)
      | Some e \<Rightarrow>
          (case (if panic
                 then via_logger (\<lambda>c. DPanicf c ''%s: %v'' [VString message, VError e]) w
                 else (Return (), w)) of
             (Return _, w1) \<Rightarrow>
               (case via_logger (\<lambda>c. Errorf c ''%s: %v'' [VString message, VError e]) w1 of
                  (Return _, w2) \<Rightarrow> (Return True, w2)
                | (Panics p, w2) \<Rightarrow> (Panics p, w2)
                | (Exits, w2) \<Rightarrow> (Exits, w2))
           | (Panics p, w1) \<Rightarrow> (Panics p, w1)
           | (Exits, w1) \<Rightarrow> (Exits, w1)))"

section \<open>\<open>CheckErr\<close> of package log, documented copy (second part of \<^verbatim>\<open>src/golog/golog_test.go\<close>)\<close>

text \<open>
  \<open>httputil.DumpResponse(resp, true)\<close> reads \<open>resp.Body\<close> first, so on the nil pointer
  it panics with a nil dereference; on a response it is the parameter \<open>dump\<close>: \<open>Inr\<close>
  the dump, \<open>Inl\<close> the error. The loop \<open>for i := 0; i < len(keysAndValues); i += 2\<close> reads
  \<open>keysAndValues[i]\<close> and \<open>keysAndValues[i+1]\<close>; it is written as recursion on the part of
  the slice not yet visited, and \<open>acc\<close> is \<open>newKeysAndValues\<close>.
\<close>

fun loop_doc ::
  "('r \<Rightarrow> goerror + string) \<Rightarrow> 'r val list \<Rightarrow> 'r val list \<Rightarrow> 'r world
    \<Rightarrow> 'r val list result \<times> 'r world" where
  "loop_doc dump [] acc w = (Return acc, w)"
| "loop_doc dump [key] acc w = (Panics IndexOutOfRange, w)"
| "loop_doc dump (key # value # rest) acc w =
     (case as_response value of
        Some NilPtr \<Rightarrow> (Panics NilDereference, w)
      | Some (Ptr resp) \<Rightarrow>
          (case dump resp of
             Inl dumpErr \<Rightarrow>
               (case via_logger
                       (\<lambda>c. Warnw c ''Failed to dump HTTP response''
                               [VString ''error'', VError dumpErr]) w of
                  (Return _, w1) \<Rightarrow>
                    loop_doc dump rest
                      (acc @ [key, VString (''Error dumping response: '' @ ErrorText dumpErr)]) w1
                | (Panics p, w1) \<Rightarrow> (Panics p, w1)
                | (Exits, w1) \<Rightarrow> (Exits, w1))
           | Inr d \<Rightarrow> loop_doc dump rest (acc @ [key, VString d]) w)
      | None \<Rightarrow> loop_doc dump rest (acc @ [key, value]) w)"

definition CheckErr_doc ::
  "('r \<Rightarrow> goerror + string) \<Rightarrow> goerror option \<Rightarrow> bool \<Rightarrow> string \<Rightarrow> 'r val list \<Rightarrow> 'r world
    \<Rightarrow> bool result \<times> 'r world" where
  "CheckErr_doc dump err shouldPanic message keysAndValues w =
     (case err of
        None \<Rightarrow> (Return False, w)
      | Some e \<Rightarrow>
          (let kvs = (if length keysAndValues mod 2 \<noteq> 0
                      then keysAndValues @ [VString ''<missing value>'']
                      else keysAndValues)
           in case loop_doc dump kvs [VString ''error'', VError e] w of
                (Return newKeysAndValues, w1) \<Rightarrow>
                  (case (if shouldPanic
                         then via_logger (\<lambda>c. Panicw c message newKeysAndValues) w1
                         else via_logger (\<lambda>c. Errorw c message newKeysAndValues) w1) of
                     (Return _, w2) \<Rightarrow> (Return True, w2)
                   | (Panics p, w2) \<Rightarrow> (Panics p, w2)
                   | (Exits, w2) \<Rightarrow> (Exits, w2))
              | (Panics p, w1) \<Rightarrow> (Panics p, w1)
              | (Exits, w1) \<Rightarrow> (Exits, w1)))"

section \<open>\<open>CheckErr\<close> of package log (src/log/log.go)\<close>

text \<open>
  This copy calls itself on the error of every dump. \<open>rec\<close> is that call; the first
  argument of \<open>CheckErr_log\<close> bounds the depth of nested calls the stack has room for,
  and \<open>None\<close> is a call that does not return. A key without a value gets
  \<open>"<missing value>"\<close>. The processed slice is handed to \<open>Panicw\<close> and \<open>Errorw\<close> as one
  argument (the call has no \<open>...\<close>), and \<open>Errorw\<close> follows \<open>Panicw\<close>.
\<close>

definition fmt_v :: "goerror option \<Rightarrow> string" where
  "fmt_v err = (case err of None \<Rightarrow> ''<nil>'' | Some e \<Rightarrow> ErrorText e)"

fun loop_log ::
  "(goerror option \<Rightarrow> bool \<Rightarrow> string \<Rightarrow> 'r val list \<Rightarrow> 'r world \<Rightarrow> (bool result \<times> 'r world) option)
    \<Rightarrow> ('r \<Rightarrow> goerror + string) \<Rightarrow> 'r val list \<Rightarrow> 'r val list \<Rightarrow> 'r world
    \<Rightarrow> ('r val list result \<times> 'r world) option" where
  "loop_log rec dump [] acc w = Some (Return acc, w)"
| "loop_log rec dump [key] acc w = Some (Return (acc @ [key, VString ''<missing value>'']), w)"
| "loop_log rec dump (key # value # rest) acc w =
     (case as_response value of
        Some NilPtr \<Rightarrow> Some (Panics NilDereference, w)
      | Some (Ptr resp) \<Rightarrow>
          (let err = (case dump resp of Inl e \<Rightarrow> Some e | Inr d \<Rightarrow> None);
               dumped = (case dump resp of Inl e \<Rightarrow> [] | Inr d \<Rightarrow> d)
           in case rec err False (''can'' @ [CHR 0x27] @ ''t dump HTTP response'')
                     [VString ''response'', VResponse resp] w of
                None \<Rightarrow> None
              | Some (Return True, w1) \<Rightarrow>
                  loop_log rec dump rest
                    (acc @ [key, VString (''Error dumping response: '' @ fmt_v err)]) w1
              | Some (Return False, w1) \<Rightarrow>
                  loop_log rec dump rest (acc @ [key, VString dumped]) w1
              | Some (Panics p, w1) \<Rightarrow> Some (Panics p, w1)
              | Some (Exits, w1) \<Rightarrow> Some (Exits, w1))
      | None \<Rightarrow> loop_log rec dump rest (acc @ [key, value]) w)"

definition body_log ::
  "(goerror option \<Rightarrow> bool \<Rightarrow> string \<Rightarrow> 'r val list \<Rightarrow> 'r world \<Rightarrow> (bool result \<times> 'r world) option)
    \<Rightarrow> ('r \<Rightarrow> goerror + string) \<Rightarrow> goerror option \<Rightarrow> bool \<Rightarrow> string \<Rightarrow> 'r val list
    \<Rightarrow> 'r world \<Rightarrow> (bool result \<times> 'r world) option" where
  "body_log rec dump err panic message keysAndValues w =
     (case err of
        None \<Rightarrow> Some (Return False, w)
      | Some e \<Rightarrow>
          (case loop_log rec dump keysAndValues [] w of
             None \<Rightarrow> None
           | Some (Return acc, w1) \<Rightarrow>
               (let newKeysAndValues = [VString ''error'', VError e] @ acc
                in case (if panic
                         then via_logger (\<lambda>c. Panicw c message [VSlice newKeysAndValues]) w1
                         else (Return (), w1)) of
                     (Return _, w2) \<Rightarrow>
                       (case via_logger (\<lambda>c. Errorw c message [VSlice newKeysAndValues]) w2 of
                          (Return _, w3) \<Rightarrow> Some (Return True, w3)
                        | (Panics p, w3) \<Rightarrow> Some (Panics p, w3)
                        | (Exits, w3) \<Rightarrow> Some (Exits, w3))
                   | (Panics p, w2) \<Rightarrow> Some (Panics p, w2)
                   | (Exits, w2) \<Rightarrow> Some (Exits, w2))
           | Some (Panics p, w1) \<Rightarrow> Some (Panics p, w1)
           | Some (Exits, w1) \<Rightarrow> Some (Exits, w1)))"

primrec CheckErr_log ::
  "nat \<Rightarrow> ('r \<Rightarrow> goerror + string) \<Rightarrow> goerror option \<Rightarrow> bool \<Rightarrow> string \<Rightarrow> 'r val list
    \<Rightarrow> 'r world \<Rightarrow> (bool result \<times> 'r world) option" where
  "CheckErr_log 0 dump err panic message keysAndValues w = None"
| "CheckErr_log (Suc depth) dump err panic message keysAndValues w =
     body_log (CheckErr_log depth dump) dump err panic message keysAndValues w"

section \<open>\<open>CheckErr\<close> of package log, in-place copy (\<^verbatim>\<open>src/unnamed/part_000\<close>)\<close>

text \<open>
  This copy writes into the slice it was given, so slices are modelled as Go has them: a
  backing array (an address in the heap), an offset into it, a length and a capacity.
\<close>

record slice =
  base :: nat
  off :: nat
  len :: nat
  cap :: nat

definition slice_get :: "'a list list \<Rightarrow> slice \<Rightarrow> nat \<Rightarrow> 'a" where
  "slice_get h s i = h ! base s ! (off s + i)"

definition slice_set :: "'a list list \<Rightarrow> slice \<Rightarrow> nat \<Rightarrow> 'a \<Rightarrow> 'a list list" where
  "slice_set h s i v = h[base s := (h ! base s)[off s + i := v]]"

definition elems :: "'a list list \<Rightarrow> slice \<Rightarrow> 'a list" where
  "elems h s = take (len s) (drop (off s) (h ! base s))"

definition valid_slice :: "'a list list \<Rightarrow> slice \<Rightarrow> bool" where
  "valid_slice h s =
     (base s < length h \<and> len s \<le> cap s \<and> off s + cap s \<le> length (h ! base s))"

text \<open>
  \<open>append(s, v)\<close>: with spare capacity the element is written into the backing array
  behind the last one; otherwise the elements are copied into a fresh array. The
  runtime may give the fresh array more capacity than one more element needs;
  \<open>CheckErr\<close> appends once and never reads the capacity.
\<close>

definition append1 :: "'a list list \<Rightarrow> slice \<Rightarrow> 'a \<Rightarrow> slice \<times> 'a list list" where
  "append1 h s v =
     (if len s < cap s
      then (s\<lparr>len := len s + 1\<rparr>, slice_set h s (len s) v)
      else (\<lparr>base = length h, off = 0, len = len s + 1, cap = len s + 1\<rparr>,
            h @ [elems h s @ [v]]))"

function loop_part000 ::
  "('r \<Rightarrow> goerror + string) \<Rightarrow> slice \<Rightarrow> nat \<Rightarrow> 'r world \<Rightarrow> unit result \<times> 'r world" where
  "loop_part000 dump keysAndValues i w =
     (if i < len keysAndValues then
        (case as_response (slice_get (heap w) keysAndValues i) of
           Some NilPtr \<Rightarrow> (Panics NilDereference, w)
         | Some (Ptr resp) \<Rightarrow>
             (case dump resp of
                Inr d \<Rightarrow>
                  loop_part000 dump keysAndValues (i + 2)
                    (w\<lparr>heap := slice_set (heap w) keysAndValues i (VString d)\<rparr>)
              | Inl dumpErr \<Rightarrow>
                  (case via_logger
                          (\<lambda>c. Warnw c ''Failed to dump HTTP response''
                                  [VString ''error'', VError dumpErr]) w of
                     (Return _, w1) \<Rightarrow> loop_part000 dump keysAndValues (i + 2) w1
                   | (Panics p, w1) \<Rightarrow> (Panics p, w1)
                   | (Exits, w1) \<Rightarrow> (Exits, w1)))
         | None \<Rightarrow> loop_part000 dump keysAndValues (i + 2) w)
      else (Return (), w))"
  by pat_completeness auto
termination
  by (relation "measure (\<lambda>(dump, keysAndValues, i, w). len keysAndValues - i)") auto

declare loop_part000.simps [simp del]

definition CheckErr_part000 ::
  "('r \<Rightarrow> goerror + string) \<Rightarrow> goerror option \<Rightarrow> bool \<Rightarrow> string \<Rightarrow> slice \<Rightarrow> 'r world
    \<Rightarrow> bool result \<times> 'r world" where
  "CheckErr_part000 dump err shouldPanic message keysAndValues w =
     (case err of
        None \<Rightarrow> (Return False, w)
      | Some e \<Rightarrow>
          (let (kvs, h) = (if len keysAndValues mod 2 \<noteq> 0
                           then append1 (heap w) keysAndValues (VString ''<missing value>'')
                           else (keysAndValues, heap w))
           in case loop_part000 dump kvs 1 (w\<lparr>heap := h\<rparr>) of
                (Return _, w1) \<Rightarrow>
                  (let finalKeysAndValues = [VString ''error'', VError e] @ elems (heap w1) kvs
                   in case (if shouldPanic
                            then via_logger (\<lambda>c. Panicw c message finalKeysAndValues) w1
                            else via_logger (\<lambda>c. Errorw c message finalKeysAndValues) w1) of
                        (Return _, w2) \<Rightarrow> (Return True, w2)
                      | (Panics p, w2) \<Rightarrow> (Panics p, w2)
                      | (Exits, w2) \<Rightarrow> (Exits, w2))
              | (Panics p, w1) \<Rightarrow> (Panics p, w1)
              | (Exits, w1) \<Rightarrow> (Exits, w1)))"

section \<open>Functions used to state the results\<close>

text \<open>
  What the in-place loop leaves at a value position, and the warning it writes for it.
\<close>

definition dump_or_keep :: "('r \<Rightarrow> goerror + string) \<Rightarrow> 'r val \<Rightarrow> 'r val" where
  "dump_or_keep dump v =
     (case as_response v of
        Some (Ptr resp) \<Rightarrow> (case dump resp of Inr d \<Rightarrow> VString d | Inl dumpErr \<Rightarrow> v)
      | Some NilPtr \<Rightarrow> v
      | None \<Rightarrow> v)"

definition dump_warning :: "('r \<Rightarrow> goerror + string) \<Rightarrow> 'r val \<Rightarrow> 'r entry list" where
  "dump_warning dump v =
     (case as_response v of
        Some (Ptr resp) \<Rightarrow>
          (case dump resp of
             Inr d \<Rightarrow> []
           | Inl dumpErr \<Rightarrow>
               [\<lparr>e_level = WarnLevel, e_style = KeyVals, e_text = ''Failed to dump HTTP response'',
                 e_args = [VString ''error'', VError dumpErr]\<rparr>])
      | Some NilPtr \<Rightarrow> []
      | None \<Rightarrow> [])"

text \<open>
  \<open>every_other f\<close> applies \<open>f\<close> to the first, third, ... element and \<open>alternate\<close> selects
  these elements; \<open>on_values f\<close> applies \<open>f\<close> to the second, fourth, ... element, the value
  positions of a key/value list. \<open>store h s ys\<close> is the heap with \<open>ys\<close> written over the
  elements of the slice \<open>s\<close>, and \<open>pad\<close> adds the placeholder to a list of odd length.
\<close>

fun every_other :: "('a \<Rightarrow> 'a) \<Rightarrow> 'a list \<Rightarrow> 'a list" where
  "every_other f [] = []"
| "every_other f [x] = [f x]"
| "every_other f (x # y # rest) = f x # y # every_other f rest"

fun alternate :: "'a list \<Rightarrow> 'a list" where
  "alternate [] = []"
| "alternate [x] = [x]"
| "alternate (x # y # rest) = x # alternate rest"

definition store :: "'a list list \<Rightarrow> slice \<Rightarrow> 'a list \<Rightarrow> 'a list list" where
  "store h s ys = h[base s := take (off s) (h ! base s) @ ys @ drop (off s + length ys) (h ! base s)]"

fun on_values :: "('a \<Rightarrow> 'a) \<Rightarrow> 'a list \<Rightarrow> 'a list" where
  "on_values f (k # v # rest) = k # f v # on_values f rest"
| "on_values f xs = xs"

definition dump_warnings :: "('r \<Rightarrow> goerror + string) \<Rightarrow> 'r val list \<Rightarrow> 'r entry list" where
  "dump_warnings dump xs = concat (map (dump_warning dump) (alternate (drop 1 xs)))"

definition pad :: "'r val list \<Rightarrow> 'r val list" where
  "pad xs = (if length xs mod 2 \<noteq> 0 then xs @ [VString ''<missing value>''] else xs)"

text \<open>
  A scenario: the package initialised in production mode and in development mode, a
  response whose dump fails (its body was closed) and a response whose dump succeeds.
\<close>

definition development :: "nat world" where
  "development = snd (InitLogger (\<lambda>c. None) True (start []))"

definition production :: "nat world" where
  "production = snd (InitLogger (\<lambda>c. None) False (start []))"

definition closed_body :: "nat \<Rightarrow> goerror + string" where
  "closed_body resp = Inl (GoError ''http: read on closed response body'')"

definition status_500 :: "nat \<Rightarrow> goerror + string" where
  "status_500 resp = Inr ''HTTP/1.1 500 Internal Server Error''"

section \<open>Basic facts\<close>

lemmas zap_methods =
  Debugw_def Infow_def Warnw_def Errorw_def Fatalw_def Panicw_def
  Debugf_def Infof_def Warnf_def Errorf_def DPanicf_def Fatalf_def Panicf_def

lemma via_logger_nil: "GetLogger w = None \<Longrightarrow> via_logger m w = (Panics NilDereference, w)"
  by (simp add: via_logger_def)

lemma via_logger_some:
  "GetLogger w = Some l \<Longrightarrow> via_logger m w = m (sugaredLogger l) w"
  by (simp add: via_logger_def)

lemma loop_part000_nil:
  "GetLogger w = None \<Longrightarrow>
   (\<exists>w'. loop_part000 dump s i w = (Return (), w') \<and> GetLogger w' = None) \<or>
   (\<exists>w'. loop_part000 dump s i w = (Panics NilDereference, w'))"
proof (induction dump s i w rule: loop_part000.induct)
  case (1 dump s i w)
  have upd: "GetLogger (w\<lparr>heap := h\<rparr>) = None" for h
    using "1.prems" by (simp add: GetLogger_def)
  show ?case
    using "1.IH" "1.prems" upd
    by (subst (1 2) loop_part000.simps)
       (auto simp: via_logger_nil split: option.splits sum.splits pointer.splits)
qed

lemma loop_doc_nil:
  "GetLogger w = None \<Longrightarrow> even (length kvs) \<Longrightarrow>
   (\<exists>acc'. loop_doc dump kvs acc w = (Return acc', w)) \<or>
   loop_doc dump kvs acc w = (Panics NilDereference, w)"
  by (induction dump kvs acc w rule: loop_doc.induct)
     (auto simp: via_logger_nil split: option.splits sum.splits pointer.splits)

lemma InitLogger_done: "once w \<Longrightarrow> InitLogger build d w = (Return (), w)"
  by (simp add: InitLogger_def)

lemma InitLogger_sets_once: "once (snd (InitLogger build d w))"
  by (simp add: InitLogger_def split: sum.splits)

lemma InitLogger_calls_done:
  "once w \<Longrightarrow> fold (\<lambda>(b, d) v. snd (InitLogger b d v)) calls w = w"
  by (induction calls) (auto simp: InitLogger_done)

lemmas eval_defs =
  body_log_def via_logger_def GetLogger_def zap_methods zap_log_def after_write_def Enabled_def
  InitLogger_def NewLogger_def start_def zap_NewProductionConfig_def zap_NewDevelopmentConfig_def
  production_def closed_body_def status_500_def fmt_v_def

lemma production_eq:
  "production = \<lparr>once = True,
     logger = Some \<lparr>sugaredLogger = \<lparr>Level = InfoLevel, Encoding = ''json'', Development = False\<rparr>\<rparr>,
     written = [], heap = []\<rparr>"
  by (simp add: eval_defs)

lemma development_eq:
  "development = \<lparr>once = True,
     logger = Some \<lparr>sugaredLogger = \<lparr>Level = DebugLevel, Encoding = ''console'', Development = True\<rparr>\<rparr>,
     written = [], heap = []\<rparr>"
  by (simp add: development_def eval_defs)

section \<open>Lists and slices\<close>

lemma length_every_other [simp]: "length (every_other f xs) = length xs"
  by (induction f xs rule: every_other.induct) auto

lemma every_other_step:
  "i < length xs \<Longrightarrow>
   take (i + 2) (xs[i := f (xs ! i)]) @ every_other f (drop (i + 2) xs)
     = take i xs @ every_other f (drop i xs)"
proof (induction xs arbitrary: i)
  case Nil
  then show ?case by simp
next
  case (Cons x xs)
  show ?case
  proof (cases i)
    case 0
    then show ?thesis by (cases xs) auto
  next
    case (Suc j)
    then show ?thesis using Cons.IH [of j] Cons.prems by simp
  qed
qed

lemma alternate_step:
  "i < length xs \<Longrightarrow> alternate (drop i xs) = xs ! i # alternate (drop (i + 2) xs)"
proof (induction xs arbitrary: i)
  case Nil
  then show ?case by simp
next
  case (Cons x xs)
  show ?case
  proof (cases i)
    case 0
    then show ?thesis by (cases xs) auto
  next
    case (Suc j)
    then show ?thesis using Cons.IH [of j] Cons.prems by simp
  qed
qed

lemma length_elems: "valid_slice h s \<Longrightarrow> length (elems h s) = len s"
  by (auto simp: valid_slice_def elems_def)

lemma elems_nth: "valid_slice h s \<Longrightarrow> i < len s \<Longrightarrow> elems h s ! i = slice_get h s i"
  by (auto simp: valid_slice_def elems_def slice_get_def)

lemma store_elems: "valid_slice h s \<Longrightarrow> store h s (elems h s) = h"
proof -
  assume v: "valid_slice h s"
  have "take (off s) (h ! base s) @ elems h s @ drop (off s + length (elems h s)) (h ! base s)
        = h ! base s"
    using v unfolding length_elems [OF v]
    by (simp add: elems_def valid_slice_def add.commute
          flip: drop_drop)
  then show ?thesis by (simp add: store_def)
qed

lemma slice_set_store:
  assumes "valid_slice h s" and "i < len s"
  shows "slice_set h s i v = store h s ((elems h s)[i := v])"
proof -
  let ?a = "h ! base s"
  have l: "length (elems h s) = len s" using assms(1) by (rule length_elems)
  have "?a[off s + i := v]
        = take (off s) ?a @ (elems h s)[i := v] @ drop (off s + len s) ?a"
  proof (rule nth_equalityI)
    show "length (?a[off s + i := v])
          = length (take (off s) ?a @ (elems h s)[i := v] @ drop (off s + len s) ?a)"
      using assms l by (auto simp: valid_slice_def)
  next
    fix k assume "k < length (?a[off s + i := v])"
    then have k: "k < length ?a" by simp
    show "?a[off s + i := v] ! k
          = (take (off s) ?a @ (elems h s)[i := v] @ drop (off s + len s) ?a) ! k"
      using assms l k
      by (auto simp: valid_slice_def nth_append nth_list_update elems_def min_def)
  qed
  then show ?thesis by (simp add: slice_set_def store_def l)
qed

lemma elems_store:
  "valid_slice h s \<Longrightarrow> length ys = len s \<Longrightarrow> elems (store h s ys) s = ys"
  by (auto simp: valid_slice_def elems_def store_def)

lemma store_store:
  "valid_slice h s \<Longrightarrow> length ys = len s \<Longrightarrow> length zs = len s \<Longrightarrow>
   store (store h s ys) s zs = store h s zs"
  by (auto simp: valid_slice_def store_def)

lemma valid_store:
  "valid_slice h s \<Longrightarrow> length ys = len s \<Longrightarrow> valid_slice (store h s ys) s"
  by (auto simp: valid_slice_def store_def)


section \<open>The in-place loop\<close>

text \<open>
  With a handle whose threshold lets warnings through, the loop started at index \<open>i\<close>
  returns; it has dumped the responses at the indices \<open>i\<close>, \<open>i + 2\<close>, ... of the slice
  where the dump succeeds and has written a warning for each one where it fails.
\<close>

lemma as_response_nil: "as_response v = Some NilPtr \<Longrightarrow> v = VNilResponse"
  by (cases v) simp_all

lemma as_response_ptr: "as_response v = Some (Ptr resp) \<Longrightarrow> v = VResponse resp"
  by (cases v) simp_all

lemma loop_part000_effect:
  assumes "GetLogger w = Some l" and "Enabled (sugaredLogger l) WarnLevel"
    and "valid_slice (heap w) s"
    and "VNilResponse \<notin> set (alternate (drop i (elems (heap w) s)))"
  shows "loop_part000 dump s i w =
     (Return (),
      w\<lparr>heap := store (heap w) s
                 (take i (elems (heap w) s)
                   @ every_other (dump_or_keep dump) (drop i (elems (heap w) s))),
        written := written w
                 @ concat (map (dump_warning dump) (alternate (drop i (elems (heap w) s))))\<rparr>)"
  using assms
proof (induction dump s i w rule: loop_part000.induct)
  case (1 dump s i w)
  let ?xs = "elems (heap w) s"
  let ?f = "dump_or_keep dump"
  have len: "length ?xs = len s" using "1.prems"(3) by (rule length_elems)
  show ?case
  proof (cases "i < len s")
    case False
    then show ?thesis
      using "1.prems"(3) len
      by (subst loop_part000.simps) (simp add: store_elems)
  next
    case True
    have get: "slice_get (heap w) s i = ?xs ! i"
      using elems_nth [OF "1.prems"(3) True] by simp
    have alt: "alternate (drop i ?xs) = ?xs ! i # alternate (drop (i + 2) ?xs)"
      using True len alternate_step [of i ?xs] by simp
    have step: "take (i + 2) (?xs[i := ?f (?xs ! i)]) @ every_other ?f (drop (i + 2) ?xs)
                 = take i ?xs @ every_other ?f (drop i ?xs)"
      using True len every_other_step [of i ?xs ?f] by simp
    have here: "?xs ! i \<noteq> VNilResponse"
      and rest: "VNilResponse \<notin> set (alternate (drop (i + 2) ?xs))"
      using "1.prems"(4) unfolding alt by auto
    show ?thesis
    proof (cases "as_response (?xs ! i)")
      case None
      have keep: "?f (?xs ! i) = ?xs ! i" "dump_warning dump (?xs ! i) = []"
        using None by (simp_all add: dump_or_keep_def dump_warning_def)
      from "1.IH" True None get "1.prems"(1-3) rest
      have "loop_part000 dump s (i + 2) w =
        (Return (),
         w\<lparr>heap := store (heap w) s
                 (take (i + 2) ?xs @ every_other ?f (drop (i + 2) ?xs)),
           written := written w
                 @ concat (map (dump_warning dump) (alternate (drop (i + 2) ?xs)))\<rparr>)"
        by simp
      then show ?thesis
        using True None get step keep alt
        by (subst loop_part000.simps) simp
    next
      case (Some ptr)
      then obtain resp where ptr: "ptr = Ptr resp"
        using here as_response_nil [of "?xs ! i"] by (cases ptr) auto
      note Some = Some [unfolded ptr]
      show ?thesis
      proof (cases "dump resp")
        case (Inr d)
        let ?w1 = "w\<lparr>heap := slice_set (heap w) s i (VString d)\<rparr>"
        have f: "?f (?xs ! i) = VString d" "dump_warning dump (?xs ! i) = []"
          using Some Inr by (simp_all add: dump_or_keep_def dump_warning_def)
        let ?ys = "?xs[i := VString d]"
        have ly: "length ?ys = len s" using len by simp
        have h1: "slice_set (heap w) s i (VString d) = store (heap w) s ?ys"
          using "1.prems"(3) True by (simp add: slice_set_store)
        have v1: "valid_slice (heap ?w1) s"
          using "1.prems"(3) ly by (simp add: h1 valid_store)
        have e1: "elems (store (heap w) s ?ys) s = ?ys"
          using "1.prems"(3) ly by (rule elems_store)
        have s1: "store (store (heap w) s ?ys) s zs = store (heap w) s zs"
          if "length zs = len s" for zs
          using "1.prems"(3) ly that by (rule store_store)
        have g1: "GetLogger ?w1 = Some l"
          using "1.prems"(1) by (simp add: GetLogger_def)
        have lz: "length (take (i + 2) ?ys @ every_other ?f (drop (i + 2) ?ys)) = len s"
          using len by simp
        have n1: "VNilResponse \<notin> set (alternate (drop (i + 2) (elems (heap ?w1) s)))"
          using rest by (simp add: h1 e1)
        from "1.IH" True g1 "1.prems"(2) v1 n1 Some Inr get
        have "loop_part000 dump s (i + 2) ?w1 =
          (Return (),
           ?w1\<lparr>heap := store (heap ?w1) s
                 (take (i + 2) (elems (heap ?w1) s)
                    @ every_other ?f (drop (i + 2) (elems (heap ?w1) s))),
             written := written ?w1
               @ concat (map (dump_warning dump) (alternate (drop (i + 2) (elems (heap ?w1) s))))\<rparr>)"
          by simp
        then have "loop_part000 dump s (i + 2) ?w1 =
          (Return (),
           w\<lparr>heap := store (heap w) s (take (i + 2) ?ys @ every_other ?f (drop (i + 2) ?ys)),
             written := written w
               @ concat (map (dump_warning dump) (alternate (drop (i + 2) ?ys)))\<rparr>)"
          using s1 [OF lz] by (simp add: h1 e1)
        then have "loop_part000 dump s (i + 2) ?w1 =
          (Return (),
           w\<lparr>heap := store (heap w) s (take i ?xs @ every_other ?f (drop i ?xs)),
             written := written w
               @ concat (map (dump_warning dump) (alternate (drop i ?xs)))\<rparr>)"
          using step f alt by simp
        then show ?thesis
          using True Some Inr get
          by (subst loop_part000.simps) simp
      next
        case (Inl dumpErr)
        let ?e = "\<lparr>e_level = WarnLevel, e_style = KeyVals,
                   e_text = ''Failed to dump HTTP response'',
                   e_args = [VString ''error'', VError dumpErr]\<rparr>"
        let ?w1 = "w\<lparr>written := written w @ [?e]\<rparr>"
        have f: "?f (?xs ! i) = ?xs ! i" "dump_warning dump (?xs ! i) = [?e]"
          using Some Inl by (simp_all add: dump_or_keep_def dump_warning_def)
        have warn: "via_logger (\<lambda>c. Warnw c ''Failed to dump HTTP response''
                        [VString ''error'', VError dumpErr]) w = (Return (), ?w1)"
          using "1.prems"(1,2)
          by (simp add: via_logger_def Warnw_def zap_log_def after_write_def)
        have g1: "GetLogger ?w1 = Some l"
          using "1.prems"(1) by (simp add: GetLogger_def)
        have v1: "valid_slice (heap ?w1) s"
          using "1.prems"(3) by simp
        have n1: "VNilResponse \<notin> set (alternate (drop (i + 2) (elems (heap ?w1) s)))"
          using rest by simp
        from "1.IH" True g1 "1.prems"(2) v1 n1 Some Inl get warn
        have "loop_part000 dump s (i + 2) ?w1 =
          (Return (),
           ?w1\<lparr>heap := store (heap ?w1) s
                 (take (i + 2) (elems (heap ?w1) s)
                    @ every_other ?f (drop (i + 2) (elems (heap ?w1) s))),
             written := written ?w1
               @ concat (map (dump_warning dump) (alternate (drop (i + 2) (elems (heap ?w1) s))))\<rparr>)"
          by simp
        then have "loop_part000 dump s (i + 2) ?w1 =
          (Return (),
           w\<lparr>heap := store (heap w) s (take i ?xs @ every_other ?f (drop i ?xs)),
             written := written w
               @ concat (map (dump_warning dump) (alternate (drop i ?xs)))\<rparr>)"
          using step f alt by simp
        then show ?thesis
          using True Some Inl get warn
          by (subst loop_part000.simps) simp
      qed
    qed
  qed
qed

section \<open>The in-place copy as a whole\<close>

lemma length_on_values [simp]: "length (on_values f xs) = length xs"
  by (induction f xs rule: on_values.induct) auto

lemma on_values_every_other: "take 1 xs @ every_other f (drop 1 xs) = on_values f xs"
proof (induction f xs rule: on_values.induct)
  case (1 f k v rest)
  then show ?case by (cases rest) auto
qed auto

lemma on_values_nth:
  "j < length xs \<Longrightarrow> on_values f xs ! j = (if odd j then f (xs ! j) else xs ! j)"
proof (induction f xs arbitrary: j rule: on_values.induct)
  case (1 f k v rest)
  show ?case
  proof (cases j)
    case 0
    then show ?thesis by simp
  next
    case (Suc j')
    show ?thesis
    proof (cases j')
      case 0
      then show ?thesis using Suc by simp
    next
      case (Suc j'')
      then show ?thesis using \<open>j = Suc j'\<close> "1.IH" [of j''] "1.prems" by simp
    qed
  qed
qed auto

lemma on_values_snoc:
  "odd (length xs) \<Longrightarrow> on_values f (xs @ [v]) = on_values f xs @ [f v]"
  by (induction f xs rule: on_values.induct) auto

lemma NewLogger_enabled:
  "NewLogger build d = Inr l \<Longrightarrow> k \<noteq> DebugLevel \<Longrightarrow> Enabled (sugaredLogger l) k"
  by (cases k)
     (auto simp: NewLogger_def Let_def Enabled_def zap_NewDevelopmentConfig_def
        zap_NewProductionConfig_def split: option.splits if_splits)

lemma NewLogger_development:
  "NewLogger build d = Inr l \<Longrightarrow> Development (sugaredLogger l) = d"
  by (auto simp: NewLogger_def Let_def zap_NewDevelopmentConfig_def
        zap_NewProductionConfig_def split: option.splits if_splits)

lemma append1_valid:
  assumes "valid_slice h s" and "append1 h s v = (s', h')"
  shows "valid_slice h' s' \<and> elems h' s' = elems h s @ [v]"
proof (cases "len s < cap s")
  case True
  have l: "length (elems h s) = len s" using assms(1) by (rule length_elems)
  from True assms(2) have s': "s' = s\<lparr>len := len s + 1\<rparr>"
    and h': "h' = slice_set h s (len s) v"
    by (auto simp: append1_def)
  have "take (len s + 1) (drop (off s) ((h ! base s)[off s + len s := v]))
        = take (len s) (drop (off s) (h ! base s)) @ [v]"
  proof (rule nth_equalityI)
    show "length (take (len s + 1) (drop (off s) ((h ! base s)[off s + len s := v])))
          = length (take (len s) (drop (off s) (h ! base s)) @ [v])"
      using assms(1) True by (auto simp: valid_slice_def)
  next
    fix k assume "k < length (take (len s + 1) (drop (off s) ((h ! base s)[off s + len s := v])))"
    then have "k < len s + 1" by simp
    then show "take (len s + 1) (drop (off s) ((h ! base s)[off s + len s := v])) ! k
               = (take (len s) (drop (off s) (h ! base s)) @ [v]) ! k"
      using assms(1) True
      by (auto simp: valid_slice_def nth_append nth_list_update)
  qed
  then show ?thesis
    using assms(1) True unfolding s' h'
    by (auto simp: valid_slice_def elems_def slice_set_def)
next
  case False
  from False assms(2) have s': "s' = \<lparr>base = length h, off = 0, len = len s + 1, cap = len s + 1\<rparr>"
    and h': "h' = h @ [elems h s @ [v]]"
    by (auto simp: append1_def)
  have l: "length (elems h s) = len s" using assms(1) by (rule length_elems)
  show ?thesis
    unfolding s' h' using l by (simp add: valid_slice_def elems_def)
qed

lemma alternate_snoc:
  "even (length ys) \<Longrightarrow> alternate (ys @ [v]) = alternate ys @ [v]"
  by (induction ys rule: alternate.induct) auto

lemma values_pad:
  "set (alternate (drop 1 (pad xs)))
     \<subseteq> insert (VString ''<missing value>'') (set (alternate (drop 1 xs)))"
proof (cases "odd (length xs)")
  case True
  then obtain x ys where xs: "xs = x # ys" by (cases xs) auto
  with True have "even (length ys)" by simp
  then show ?thesis
    using True by (auto simp: pad_def xs alternate_snoc)
next
  case False
  then show ?thesis by (auto simp: pad_def)
qed

lemma no_nil_pad:
  "VNilResponse \<notin> set (alternate (drop 1 xs)) \<Longrightarrow>
   VNilResponse \<notin> set (alternate (drop 1 (pad xs)))"
  using values_pad [of xs] by auto

lemma CheckErr_part000_effect:
  assumes "GetLogger w = Some l"
    and "Enabled (sugaredLogger l) WarnLevel"
    and "Enabled (sugaredLogger l) (if shouldPanic then PanicLevel else ErrorLevel)"
    and "valid_slice (heap w) s"
    and "(if len s mod 2 \<noteq> 0
          then append1 (heap w) s (VString ''<missing value>'')
          else (s, heap w)) = (kvs, h)"
    and "VNilResponse \<notin> set (alternate (drop 1 (elems (heap w) s)))"
  shows "CheckErr_part000 dump (Some e) shouldPanic message s w =
     (if shouldPanic then Panics LoggerPanic else Return True,
      w\<lparr>heap := store h kvs (on_values (dump_or_keep dump) (pad (elems (heap w) s))),
        written := written w @ dump_warnings dump (pad (elems (heap w) s))
          @ [\<lparr>e_level = (if shouldPanic then PanicLevel else ErrorLevel), e_style = KeyVals,
               e_text = message,
               e_args = [VString ''error'', VError e]
                  @ on_values (dump_or_keep dump) (pad (elems (heap w) s))\<rparr>]\<rparr>)"
proof -
  let ?xs = "pad (elems (heap w) s)"
  let ?w0 = "w\<lparr>heap := h\<rparr>"
  have l: "length (elems (heap w) s) = len s" using assms(4) by (rule length_elems)
  have vk: "valid_slice h kvs \<and> elems h kvs = ?xs"
  proof (cases "len s mod 2 \<noteq> 0")
    case True
    with assms(5) have "append1 (heap w) s (VString ''<missing value>'') = (kvs, h)" by simp
    from append1_valid [OF assms(4) this] True l show ?thesis by (simp add: pad_def)
  next
    case False
    with assms(5) have "kvs = s" "h = heap w" by simp_all
    then show ?thesis using assms(4) False l by (simp add: pad_def)
  qed
  have g0: "GetLogger ?w0 = Some l" using assms(1) by (simp add: GetLogger_def)
  have v0: "valid_slice (heap ?w0) kvs" using vk by simp
  let ?w1 = "w\<lparr>heap := store h kvs (on_values (dump_or_keep dump) ?xs),
                written := written w @ dump_warnings dump ?xs\<rparr>"
  have n0: "VNilResponse \<notin> set (alternate (drop 1 (elems (heap ?w0) kvs)))"
    using no_nil_pad [OF assms(6)] vk by simp
  have loop: "loop_part000 dump kvs 1 ?w0 = (Return (), ?w1)"
    using loop_part000_effect [OF g0 assms(2) v0 n0, of dump] vk
    by (simp add: dump_warnings_def on_values_every_other del: One_nat_def take_Suc_Cons)
  have lx: "length (on_values (dump_or_keep dump) ?xs) = len kvs"
    using vk length_elems [of h kvs] by simp
  have e1: "elems (store h kvs (on_values (dump_or_keep dump) ?xs)) kvs
            = on_values (dump_or_keep dump) ?xs"
    using vk lx by (simp add: elems_store)
  have "CheckErr_part000 dump (Some e) shouldPanic message s w =
     (case loop_part000 dump kvs 1 ?w0 of
        (Return _, w1) \<Rightarrow>
          (let finalKeysAndValues = [VString ''error'', VError e] @ elems (heap w1) kvs
           in case (if shouldPanic
                    then via_logger (\<lambda>c. Panicw c message finalKeysAndValues) w1
                    else via_logger (\<lambda>c. Errorw c message finalKeysAndValues) w1) of
                (Return _, w2) \<Rightarrow> (Return True, w2)
              | (Panics p, w2) \<Rightarrow> (Panics p, w2)
              | (Exits, w2) \<Rightarrow> (Exits, w2))
      | (Panics p, w1) \<Rightarrow> (Panics p, w1)
      | (Exits, w1) \<Rightarrow> (Exits, w1))"
    unfolding CheckErr_part000_def option.case assms(5) Let_def prod.case ..
  then have unfolded: "CheckErr_part000 dump (Some e) shouldPanic message s w =
     (case (if shouldPanic
            then Panicw (sugaredLogger l) message
                   ([VString ''error'', VError e] @ on_values (dump_or_keep dump) ?xs) ?w1
            else Errorw (sugaredLogger l) message
                   ([VString ''error'', VError e] @ on_values (dump_or_keep dump) ?xs) ?w1) of
        (Return _, w2) \<Rightarrow> (Return True, w2)
      | (Panics p, w2) \<Rightarrow> (Panics p, w2)
      | (Exits, w2) \<Rightarrow> (Exits, w2))"
    unfolding loop by (simp add: e1 via_logger_def GetLogger_def assms(1) [unfolded GetLogger_def])
  show ?thesis
  proof (cases shouldPanic)
    case True
    with assms(3) have "Enabled (sugaredLogger l) PanicLevel" by simp
    then show ?thesis
      unfolding unfolded using True
      by (simp add: Panicw_def zap_log_def after_write_def)
  next
    case False
    with assms(3) have "Enabled (sugaredLogger l) ErrorLevel" by simp
    then show ?thesis
      unfolding unfolded using False
      by (simp add: Errorw_def zap_log_def after_write_def)
  qed
qed

lemma elems_heap_append:
  "base s < length h \<Longrightarrow> elems (h @ [zs]) s = elems h s"
  by (simp add: elems_def nth_append)

lemma elems_store_prefix:
  assumes "valid_slice h s" and "length ys = len s + 1" and "len s < cap s"
  shows "elems (store h (s\<lparr>len := len s + 1\<rparr>) ys) s = take (len s) ys"
  using assms by (auto simp: valid_slice_def elems_def store_def)

text \<open>
  Whatever the handle is: if the loop returns, it has dumped the responses at the value
  positions where the dump succeeds and has left every other element alone; and if the
  whole call returns, it returns true, the flag was unset and the heap is the one the
  loop left.
\<close>

lemma warn_heap:
  "via_logger (\<lambda>c. Warnw c t as) w = (Return u, w1) \<Longrightarrow> heap w1 = heap w"
  by (auto simp: via_logger_def Warnw_def zap_log_def split: option.splits if_splits)

lemma loop_part000_returns:
  assumes "valid_slice (heap w) s"
    and "loop_part000 dump s i w = (Return u, w')"
  shows "heap w' = store (heap w) s
                 (take i (elems (heap w) s)
                   @ every_other (dump_or_keep dump) (drop i (elems (heap w) s)))"
  using assms
proof (induction dump s i w rule: loop_part000.induct)
  case (1 dump s i w)
  let ?xs = "elems (heap w) s"
  let ?f = "dump_or_keep dump"
  have len: "length ?xs = len s" using "1.prems"(1) by (rule length_elems)
  show ?case
  proof (cases "i < len s")
    case False
    then show ?thesis
      using "1.prems" len
      by (subst (asm) loop_part000.simps) (simp add: store_elems)
  next
    case True
    have get: "slice_get (heap w) s i = ?xs ! i"
      using elems_nth [OF "1.prems"(1) True] by simp
    have step: "take (i + 2) (?xs[i := ?f (?xs ! i)]) @ every_other ?f (drop (i + 2) ?xs)
                 = take i ?xs @ every_other ?f (drop i ?xs)"
      using True len every_other_step [of i ?xs ?f] by simp
    show ?thesis
    proof (cases "as_response (?xs ! i)")
      case None
      have keep: "?f (?xs ! i) = ?xs ! i"
        using None by (simp add: dump_or_keep_def)
      have "loop_part000 dump s (i + 2) w = (Return u, w')"
        using "1.prems"(2) True None get
        by (subst (asm) loop_part000.simps) simp
      with "1.IH" True None get "1.prems"(1)
      have "heap w' = store (heap w) s
                 (take (i + 2) ?xs @ every_other ?f (drop (i + 2) ?xs))"
        by simp
      then show ?thesis using step keep by simp
    next
      case (Some ptr)
      show ?thesis
      proof (cases ptr)
        case NilPtr
        then show ?thesis
          using "1.prems"(2) True Some get
          by (subst (asm) loop_part000.simps) simp
      next
        case (Ptr resp)
        note Some = Some [unfolded Ptr]
        show ?thesis
        proof (cases "dump resp")
          case (Inr d)
          let ?w1 = "w\<lparr>heap := slice_set (heap w) s i (VString d)\<rparr>"
          have f: "?f (?xs ! i) = VString d"
            using Some Inr by (simp add: dump_or_keep_def)
          let ?ys = "?xs[i := VString d]"
          have ly: "length ?ys = len s" using len by simp
          have h1: "slice_set (heap w) s i (VString d) = store (heap w) s ?ys"
            using "1.prems"(1) True by (simp add: slice_set_store)
          have v1: "valid_slice (heap ?w1) s"
            using "1.prems"(1) ly by (simp add: h1 valid_store)
          have e1: "elems (store (heap w) s ?ys) s = ?ys"
            using "1.prems"(1) ly by (rule elems_store)
          have s1: "store (store (heap w) s ?ys) s zs = store (heap w) s zs"
            if "length zs = len s" for zs
            using "1.prems"(1) ly that by (rule store_store)
          have lz: "length (take (i + 2) ?ys @ every_other ?f (drop (i + 2) ?ys)) = len s"
            using len by simp
          have "loop_part000 dump s (i + 2) ?w1 = (Return u, w')"
            using "1.prems"(2) True Some Inr get
            by (subst (asm) loop_part000.simps) simp
          with "1.IH" True Some Inr get v1
          have "heap w' = store (heap ?w1) s
                 (take (i + 2) (elems (heap ?w1) s)
                    @ every_other ?f (drop (i + 2) (elems (heap ?w1) s)))"
            by simp
          then have "heap w' = store (heap w) s
                 (take (i + 2) ?ys @ every_other ?f (drop (i + 2) ?ys))"
            using s1 [OF lz] by (simp add: h1 e1)
          then show ?thesis using step f by simp
        next
          case (Inl dumpErr)
          have keep: "?f (?xs ! i) = ?xs ! i"
            using Some Inl by (simp add: dump_or_keep_def)
          obtain r1 w1 where warn: "via_logger (\<lambda>c. Warnw c ''Failed to dump HTTP response''
                        [VString ''error'', VError dumpErr]) w = (r1, w1)"
            by (cases "via_logger (\<lambda>c. Warnw c ''Failed to dump HTTP response''
                        [VString ''error'', VError dumpErr]) w") blast
          show ?thesis
          proof (cases r1)
            case (Return x)
            have hw1: "heap w1 = heap w"
              using warn [unfolded Return] by (rule warn_heap)
            have "loop_part000 dump s (i + 2) w1 = (Return u, w')"
              using "1.prems"(2) True Some Inl get warn Return
              by (subst (asm) loop_part000.simps) simp
            with "1.IH" True Some Inl get warn Return "1.prems"(1) hw1
            have "heap w' = store (heap w1) s
                 (take (i + 2) (elems (heap w1) s)
                    @ every_other ?f (drop (i + 2) (elems (heap w1) s)))"
              by simp
            then show ?thesis using step keep hw1 by simp
          next
            case (Panics x)
            then show ?thesis
              using "1.prems"(2) True Some Inl get warn
              by (subst (asm) loop_part000.simps) simp
          next
            case Exits
            then show ?thesis
              using "1.prems"(2) True Some Inl get warn
              by (subst (asm) loop_part000.simps) simp
          qed
        qed
      qed
    qed
  qed
qed


lemma log_call_heap:
  "via_logger (\<lambda>c. zap_log c k sty t as) w = (r, w1) \<Longrightarrow> heap w1 = heap w"
  by (auto simp: via_logger_def zap_log_def split: option.splits if_splits)

lemma log_call_flag:
  "via_logger (\<lambda>c. Panicw c t as) w \<noteq> (Return u, w1)"
  by (auto simp: via_logger_def Panicw_def zap_log_def after_write_def split: option.splits)

lemma CheckErr_part000_returns:
  assumes "valid_slice (heap w) s"
    and "(if len s mod 2 \<noteq> 0
          then append1 (heap w) s (VString ''<missing value>'')
          else (s, heap w)) = (kvs, h)"
    and "CheckErr_part000 dump (Some e) shouldPanic message s w = (Return b, w')"
  shows "b \<and> \<not> shouldPanic \<and>
         heap w' = store h kvs (on_values (dump_or_keep dump) (pad (elems (heap w) s)))"
proof -
  let ?xs = "pad (elems (heap w) s)"
  let ?w0 = "w\<lparr>heap := h\<rparr>"
  have l: "length (elems (heap w) s) = len s" using assms(1) by (rule length_elems)
  have vk: "valid_slice h kvs \<and> elems h kvs = ?xs"
  proof (cases "len s mod 2 \<noteq> 0")
    case True
    with assms(2) have "append1 (heap w) s (VString ''<missing value>'') = (kvs, h)" by simp
    from append1_valid [OF assms(1) this] True l show ?thesis by (simp add: pad_def)
  next
    case False
    with assms(2) have "kvs = s" "h = heap w" by simp_all
    then show ?thesis using assms(1) False l by (simp add: pad_def)
  qed
  have unf: "CheckErr_part000 dump (Some e) shouldPanic message s w =
     (case loop_part000 dump kvs 1 ?w0 of
        (Return _, w1) \<Rightarrow>
          (let finalKeysAndValues = [VString ''error'', VError e] @ elems (heap w1) kvs
           in case (if shouldPanic
                    then via_logger (\<lambda>c. Panicw c message finalKeysAndValues) w1
                    else via_logger (\<lambda>c. Errorw c message finalKeysAndValues) w1) of
                (Return _, w2) \<Rightarrow> (Return True, w2)
              | (Panics p, w2) \<Rightarrow> (Panics p, w2)
              | (Exits, w2) \<Rightarrow> (Exits, w2))
      | (Panics p, w1) \<Rightarrow> (Panics p, w1)
      | (Exits, w1) \<Rightarrow> (Exits, w1))"
    unfolding CheckErr_part000_def option.case assms(2) Let_def prod.case ..
  obtain r1 w1 where loop: "loop_part000 dump kvs 1 ?w0 = (r1, w1)"
    by (cases "loop_part000 dump kvs 1 ?w0") blast
  have r1: "r1 = Return ()"
    using assms(3) unfolding unf loop by (cases r1) auto
  have hw1: "heap w1 = store h kvs (on_values (dump_or_keep dump) ?xs)"
    using loop_part000_returns [of ?w0 kvs dump 1 "()" w1] vk loop r1
    by (simp add: on_values_every_other del: One_nat_def take_Suc_Cons)
  let ?final = "[VString ''error'', VError e] @ elems (heap w1) kvs"
  have np: "\<not> shouldPanic"
  proof
    assume sp: shouldPanic
    obtain r2 w2 where c: "via_logger (\<lambda>c. Panicw c message ?final) w1 = (r2, w2)"
      by (cases "via_logger (\<lambda>c. Panicw c message ?final) w1") blast
    with log_call_flag [of message ?final w1] have "r2 \<noteq> Return ()" by auto
    then show False
      using assms(3) sp c unfolding unf loop r1 by (cases r2) (auto simp: Let_def)
  qed
  obtain r2 w2 where c: "via_logger (\<lambda>c. Errorw c message ?final) w1 = (r2, w2)"
    by (cases "via_logger (\<lambda>c. Errorw c message ?final) w1") blast
  have hw2: "heap w2 = heap w1"
    using c unfolding Errorw_def by (rule log_call_heap)
  have "b \<and> w' = w2"
    using assms(3) np c unfolding unf loop r1 by (cases r2) (auto simp: Let_def)
  then show ?thesis using np hw1 hw2 by simp
qed

text \<open>
  A nil response pointer at a value position: the dump dereferences it, so the call
  panics although the handle is initialised.
\<close>

lemma CheckErr_part000_nil_response:
  "CheckErr_part000 status_500 (Some (GoError ''boom'')) False ''request failed''
     \<lparr>base = 0, off = 0, len = 2, cap = 2\<rparr>
     (production\<lparr>heap := [[VString ''resp'', VNilResponse]]\<rparr>)
   = (Panics NilDereference, production\<lparr>heap := [[VString ''resp'', VNilResponse]]\<rparr>)"
  by (simp add: eval_defs CheckErr_part000_def slice_get_def loop_part000.simps)

lemma dump_warnings_no_error:
  "filter (\<lambda>x. e_level x = ErrorLevel) (dump_warnings dump xs) = []"
  by (auto simp: dump_warnings_def filter_empty_conv dump_warning_def
        split: option.splits sum.splits)

lemma even_length_pad: "even (length (pad xs))"
  by (auto simp: pad_def)

text \<open>
  The in-place copy with the flag unset, a handle built by \<open>NewLogger\<close> and no nil
  response pointer at a value position: the call
  returns true, the only error-level record it writes carries the message, the error
  under the key \<open>error\<close> and the processed context, and its arguments come in pairs.
\<close>

lemma CheckErr_part000_error_record:
  assumes "NewLogger build d = Inr l" and "GetLogger w = Some l"
    and "valid_slice (heap w) s"
    and "VNilResponse \<notin> set (alternate (drop 1 (elems (heap w) s)))"
  shows "fst (CheckErr_part000 dump (Some e) False message s w) = Return True \<and>
         filter (\<lambda>x. e_level x = ErrorLevel)
           (drop (length (written w))
              (written (snd (CheckErr_part000 dump (Some e) False message s w))))
           = [\<lparr>e_level = ErrorLevel, e_style = KeyVals, e_text = message,
                e_args = [VString ''error'', VError e]
                   @ on_values (dump_or_keep dump) (pad (elems (heap w) s))\<rparr>] \<and>
         even (length ([VString ''error'', VError e]
                   @ on_values (dump_or_keep dump) (pad (elems (heap w) s)))) \<and>
         hd (keyvals ([VString ''error'', VError e]
                   @ on_values (dump_or_keep dump) (pad (elems (heap w) s))))
           = (VString ''error'', VError e)"
proof -
  have ew: "Enabled (sugaredLogger l) WarnLevel"
    using assms(1) by (rule NewLogger_enabled) simp
  have ee: "Enabled (sugaredLogger l) (if False then PanicLevel else ErrorLevel)"
    using NewLogger_enabled [OF assms(1), of ErrorLevel] by simp
  obtain kvs h where kh: "(if len s mod 2 \<noteq> 0
          then append1 (heap w) s (VString ''<missing value>'')
          else (s, heap w)) = (kvs, h)"
    by (cases "if len s mod 2 \<noteq> 0
          then append1 (heap w) s (VString ''<missing value>'')
          else (s, heap w)") blast
  note eff = CheckErr_part000_effect [OF assms(2) ew ee assms(3) kh assms(4), of dump e message]
  show ?thesis
    unfolding eff by (simp add: dump_warnings_no_error even_length_pad)
qed

text \<open>
  The documented copy on a failing dump: a warning, then the error-level record with the
  failure description in the place of the response.
\<close>

lemma CheckErr_doc_failed_dump:
  "CheckErr_doc closed_body (Some (GoError ''boom'')) False ''request failed''
     [VString ''resp'', VResponse 1] production
   = (Return True, production\<lparr>written :=
       [\<lparr>e_level = WarnLevel, e_style = KeyVals, e_text = ''Failed to dump HTTP response'',
         e_args = [VString ''error'', VError (GoError ''http: read on closed response body'')]\<rparr>,
        \<lparr>e_level = ErrorLevel, e_style = KeyVals, e_text = ''request failed'',
         e_args = [VString ''error'', VError (GoError ''boom''), VString ''resp'',
                   VString ''Error dumping response: http: read on closed response body'']\<rparr>]\<rparr>)"
  by (simp add: eval_defs CheckErr_doc_def)

section \<open>The copy of src/log/log.go\<close>

text \<open>
  With the flag set this copy never returns a value: when its loop returns, \<open>Panicw\<close>
  panics (or the nil handle does) before \<open>Errorw\<close> is reached.
\<close>

lemma CheckErr_log_flag_set:
  "CheckErr_log depth dump (Some e) True message kvs w \<noteq> Some (Return b, w')"
proof (cases depth)
  case 0
  then show ?thesis by simp
next
  case (Suc n)
  show ?thesis
  proof (cases "loop_log (CheckErr_log n dump) dump kvs [] w")
    case None
    then show ?thesis using Suc by (simp add: body_log_def)
  next
    case (Some a)
    obtain res w1 where a: "a = (res, w1)" by (cases a)
    show ?thesis
    proof (cases res)
      case (Return acc)
      then show ?thesis
        using Suc Some a
        by (cases "GetLogger w1")
           (simp_all add: body_log_def via_logger_def Panicw_def zap_log_def after_write_def)
    next
      case (Panics x)
      then show ?thesis using Suc Some a by (simp add: body_log_def)
    next
      case Exits
      then show ?thesis using Suc Some a by (simp add: body_log_def)
    qed
  qed
qed

text \<open>
  A response whose dump fails makes this copy call itself with that response as a
  context value, so the nested call dumps it again and fails again: no depth is enough.
\<close>

lemma CheckErr_log_failing_dump:
  "dump resp = Inl d \<Longrightarrow>
   CheckErr_log depth dump (Some e) p message [key, VResponse resp] w = None"
proof (induction depth arbitrary: e p message key w)
  case 0
  show ?case by simp
next
  case (Suc depth)
  show ?case
    using Suc.prems Suc.IH [of d False _ "VString ''response''" w]
    by (simp add: body_log_def)
qed

section \<open>The nil error\<close>

text \<open>
  Claim C2. For a nil error every copy of \<open>CheckErr\<close> returns false at once and leaves
  the whole state as it was: no record is written, the guard and the handle are
  untouched, and no backing array is written, whatever the termination flag, the message
  and the context are. No logger is needed for it. (For the copy of src/log/log.go the
  depth \<open>Suc depth\<close> says that the stack has room for the call itself.)
\<close>

theorem CheckErr_nil_error:
  "CheckErr_golog None message p w = (Return False, w) \<and>
   CheckErr_doc dump None p message kvs w = (Return False, w) \<and>
   CheckErr_log (Suc depth) dump None p message kvs w = Some (Return False, w) \<and>
   CheckErr_part000 dump None p message s w = (Return False, w)"
  by (simp add: CheckErr_golog_def CheckErr_doc_def body_log_def CheckErr_part000_def)

section \<open>Construction\<close>

text \<open>
  Claim C7. When building succeeds, \<open>NewLogger\<close> with the development flag gives a
  logger with the debug threshold and console encoding, and without the flag a logger
  with the info threshold and JSON encoding. Hence every level is enabled in
  development mode, and in production mode every level but debug: a \<open>Debug\<close> call
  writes its record with the development logger and writes nothing with the production
  logger, where \<open>Info\<close>, \<open>Warn\<close> and \<open>Error\<close> write theirs.
\<close>

theorem NewLogger_modes:
  assumes "NewLogger build True = Inr ldev" and "NewLogger build False = Inr lprod"
  shows "Level (sugaredLogger ldev) = DebugLevel \<and> Encoding (sugaredLogger ldev) = ''console'' \<and>
         Level (sugaredLogger lprod) = InfoLevel \<and> Encoding (sugaredLogger lprod) = ''json'' \<and>
         Enabled (sugaredLogger ldev) l \<and>
         Enabled (sugaredLogger lprod) l = (l \<noteq> DebugLevel) \<and>
         Debug msg kvs (w\<lparr>logger := Some ldev\<rparr>)
           = (Return (), w\<lparr>logger := Some ldev, written := written w @
                [\<lparr>e_level = DebugLevel, e_style = KeyVals, e_text = msg, e_args = kvs\<rparr>]\<rparr>) \<and>
         Debug msg kvs (w\<lparr>logger := Some lprod\<rparr>) = (Return (), w\<lparr>logger := Some lprod\<rparr>) \<and>
         Info msg kvs (w\<lparr>logger := Some lprod\<rparr>)
           = (Return (), w\<lparr>logger := Some lprod, written := written w @
                [\<lparr>e_level = InfoLevel, e_style = KeyVals, e_text = msg, e_args = kvs\<rparr>]\<rparr>) \<and>
         Warn msg kvs (w\<lparr>logger := Some lprod\<rparr>)
           = (Return (), w\<lparr>logger := Some lprod, written := written w @
                [\<lparr>e_level = WarnLevel, e_style = KeyVals, e_text = msg, e_args = kvs\<rparr>]\<rparr>) \<and>
         Error msg kvs (w\<lparr>logger := Some lprod\<rparr>)
           = (Return (), w\<lparr>logger := Some lprod, written := written w @
                [\<lparr>e_level = ErrorLevel, e_style = KeyVals, e_text = msg, e_args = kvs\<rparr>]\<rparr>)"
proof -
  from assms(1) have ldev: "sugaredLogger ldev =
      \<lparr>Level = DebugLevel, Encoding = ''console'', Development = True\<rparr>"
    by (auto simp: NewLogger_def zap_NewDevelopmentConfig_def Let_def split: option.splits)
  from assms(2) have lprod: "sugaredLogger lprod =
      \<lparr>Level = InfoLevel, Encoding = ''json'', Development = False\<rparr>"
    by (auto simp: NewLogger_def zap_NewProductionConfig_def Let_def split: option.splits)
  have e1: "Enabled (sugaredLogger ldev) k" for k
    by (cases k) (simp_all add: ldev Enabled_def)
  have e2: "Enabled (sugaredLogger lprod) k = (k \<noteq> DebugLevel)" for k
    by (cases k) (simp_all add: lprod Enabled_def)
  have cfg: "Level (sugaredLogger ldev) = DebugLevel \<and> Encoding (sugaredLogger ldev) = ''console'' \<and>
         Level (sugaredLogger lprod) = InfoLevel \<and> Encoding (sugaredLogger lprod) = ''json''"
    by (simp add: ldev lprod)
  have calls: "Debug msg kvs (w\<lparr>logger := Some ldev\<rparr>)
           = (Return (), w\<lparr>logger := Some ldev, written := written w @
                [\<lparr>e_level = DebugLevel, e_style = KeyVals, e_text = msg, e_args = kvs\<rparr>]\<rparr>) \<and>
         Debug msg kvs (w\<lparr>logger := Some lprod\<rparr>) = (Return (), w\<lparr>logger := Some lprod\<rparr>) \<and>
         Info msg kvs (w\<lparr>logger := Some lprod\<rparr>)
           = (Return (), w\<lparr>logger := Some lprod, written := written w @
                [\<lparr>e_level = InfoLevel, e_style = KeyVals, e_text = msg, e_args = kvs\<rparr>]\<rparr>) \<and>
         Warn msg kvs (w\<lparr>logger := Some lprod\<rparr>)
           = (Return (), w\<lparr>logger := Some lprod, written := written w @
                [\<lparr>e_level = WarnLevel, e_style = KeyVals, e_text = msg, e_args = kvs\<rparr>]\<rparr>) \<and>
         Error msg kvs (w\<lparr>logger := Some lprod\<rparr>)
           = (Return (), w\<lparr>logger := Some lprod, written := written w @
                [\<lparr>e_level = ErrorLevel, e_style = KeyVals, e_text = msg, e_args = kvs\<rparr>]\<rparr>)"
    by (simp add: e1 e2 Debug_def Info_def Warn_def Error_def via_logger_def GetLogger_def
          Debugw_def Infow_def Warnw_def Errorw_def zap_log_def after_write_def)
  show ?thesis
    using cfg e1 e2 calls by blast
qed

theorem NewLogger_modes_witness:
  "NewLogger (\<lambda>c. None) True
     = Inr \<lparr>sugaredLogger = \<lparr>Level = DebugLevel, Encoding = ''console'', Development = True\<rparr>\<rparr> \<and>
   NewLogger (\<lambda>c. None) False
     = Inr \<lparr>sugaredLogger = \<lparr>Level = InfoLevel, Encoding = ''json'', Development = False\<rparr>\<rparr> \<and>
   Debug ''starting'' [VString ''port'', VOther 8080]
       ((start [] :: nat world)\<lparr>logger := Some \<lparr>sugaredLogger =
           \<lparr>Level = InfoLevel, Encoding = ''json'', Development = False\<rparr>\<rparr>\<rparr>)
     = (Return (), (start [])\<lparr>logger := Some \<lparr>sugaredLogger =
           \<lparr>Level = InfoLevel, Encoding = ''json'', Development = False\<rparr>\<rparr>\<rparr>) \<and>
   Info ''starting'' [VString ''port'', VOther 8080]
       ((start [] :: nat world)\<lparr>logger := Some \<lparr>sugaredLogger =
           \<lparr>Level = InfoLevel, Encoding = ''json'', Development = False\<rparr>\<rparr>\<rparr>)
     = (Return (), (start [])\<lparr>logger := Some \<lparr>sugaredLogger =
           \<lparr>Level = InfoLevel, Encoding = ''json'', Development = False\<rparr>\<rparr>,
         written := [\<lparr>e_level = InfoLevel, e_style = KeyVals, e_text = ''starting'',
                      e_args = [VString ''port'', VOther 8080]\<rparr>]\<rparr>)"
proof -
  have a: "NewLogger (\<lambda>c. None) True
     = Inr \<lparr>sugaredLogger = \<lparr>Level = DebugLevel, Encoding = ''console'', Development = True\<rparr>\<rparr>"
    by (simp add: NewLogger_def zap_NewDevelopmentConfig_def)
  have b: "NewLogger (\<lambda>c. None) False
     = Inr \<lparr>sugaredLogger = \<lparr>Level = InfoLevel, Encoding = ''json'', Development = False\<rparr>\<rparr>"
    by (simp add: NewLogger_def zap_NewProductionConfig_def)
  from NewLogger_modes [OF a b, where msg = "''starting''"
      and kvs = "[VString ''port'', VOther 8080]" and w = "start [] :: nat world"]
  show ?thesis using a b by (simp add: start_def)
qed

section \<open>The global handle\<close>

text \<open>
  Claim C8. Take a state in which the guard has not fired and let a first call
  \<open>InitLogger build d\<close> return. Then the handle is the logger that \<open>NewLogger build d\<close>
  built; any later call \<open>InitLogger build' d'\<close> returns without changing the state,
  whatever its flag is and whether or not building would succeed; and so does any
  sequence of later calls, after which \<open>GetLogger\<close> still gives the first call's handle.
\<close>

theorem InitLogger_once:
  assumes "\<not> once w" and "InitLogger build d w = (Return (), w1)"
  shows "(\<exists>l. NewLogger build d = Inr l \<and> GetLogger w1 = Some l) \<and>
         InitLogger build' d' w1 = (Return (), w1) \<and>
         fold (\<lambda>(b, d) v. snd (InitLogger b d v)) calls w1 = w1 \<and>
         GetLogger (fold (\<lambda>(b, d) v. snd (InitLogger b d v)) calls w1) = GetLogger w1"
proof -
  from assms have built: "\<exists>l. NewLogger build d = Inr l \<and> GetLogger w1 = Some l"
    by (auto simp: InitLogger_def GetLogger_def split: sum.splits)
  have "once w1"
    using InitLogger_sets_once [of build d w] assms(2) by simp
  then show ?thesis
    using built by (simp add: InitLogger_done InitLogger_calls_done)
qed

theorem InitLogger_once_witness:
  "\<not> once (start [] :: nat world) \<and>
   InitLogger (\<lambda>c. None) True (start [] :: nat world)
     = (Return (), \<lparr>once = True,
                     logger = Some \<lparr>sugaredLogger =
                        \<lparr>Level = DebugLevel, Encoding = ''console'', Development = True\<rparr>\<rparr>,
                     written = [], heap = []\<rparr>) \<and>
   InitLogger (\<lambda>c. Some (GoError ''no sink'')) False
      \<lparr>once = True,
       logger = Some \<lparr>sugaredLogger =
                        \<lparr>Level = DebugLevel, Encoding = ''console'', Development = True\<rparr>\<rparr>,
       written = [], heap = []\<rparr>
     = (Return (), \<lparr>once = True,
                     logger = Some \<lparr>sugaredLogger =
                        \<lparr>Level = DebugLevel, Encoding = ''console'', Development = True\<rparr>\<rparr>,
                     written = [], heap = ([] :: nat val list list)\<rparr>)"
proof -
  have a: "\<not> once (start [] :: nat world)"
    by (simp add: start_def)
  have b: "InitLogger (\<lambda>c. None) True (start [] :: nat world)
     = (Return (), \<lparr>once = True,
                     logger = Some \<lparr>sugaredLogger =
                        \<lparr>Level = DebugLevel, Encoding = ''console'', Development = True\<rparr>\<rparr>,
                     written = [], heap = []\<rparr>)"
    by (simp add: InitLogger_def NewLogger_def start_def zap_NewDevelopmentConfig_def)
  from InitLogger_once [OF a b, of "\<lambda>c. Some (GoError ''no sink'')" False "[]"]
  show ?thesis using a b by simp
qed

section \<open>Calls before initialisation\<close>

text \<open>
  Claim C9. At program start \<open>GetLogger\<close> gives nil. In a state whose handle is nil,
  each of the twelve package-level logging functions panics on the nil pointer without
  writing anything, and so does \<open>CheckErr\<close> with a non-nil error in the copies of
  src/golog/golog.go, of the in-place file and of the documented file (the in-place copy
  may have written dumps into the slice before it reaches the logger).
\<close>

theorem uninitialised_logger_panics:
  assumes "GetLogger w = None"
  shows "GetLogger (start h) = None \<and>
         Info msg kvs w = (Panics NilDereference, w) \<and>
         Debug msg kvs w = (Panics NilDereference, w) \<and>
         Warn msg kvs w = (Panics NilDereference, w) \<and>
         Error msg kvs w = (Panics NilDereference, w) \<and>
         Fatal msg kvs w = (Panics NilDereference, w) \<and>
         Panic msg kvs w = (Panics NilDereference, w) \<and>
         Debugf' msg kvs w = (Panics NilDereference, w) \<and>
         Infof' msg kvs w = (Panics NilDereference, w) \<and>
         Warnf' msg kvs w = (Panics NilDereference, w) \<and>
         Errorf' msg kvs w = (Panics NilDereference, w) \<and>
         Fatalf' msg kvs w = (Panics NilDereference, w) \<and>
         Panicf' msg kvs w = (Panics NilDereference, w) \<and>
         CheckErr_golog (Some e) msg p w = (Panics NilDereference, w) \<and>
         CheckErr_doc dump (Some e) p msg kvs w = (Panics NilDereference, w) \<and>
         fst (CheckErr_part000 dump (Some e) p msg s w) = Panics NilDereference"
proof -
  have funs: "Info msg kvs w = (Panics NilDereference, w) \<and>
         Debug msg kvs w = (Panics NilDereference, w) \<and>
         Warn msg kvs w = (Panics NilDereference, w) \<and>
         Error msg kvs w = (Panics NilDereference, w) \<and>
         Fatal msg kvs w = (Panics NilDereference, w) \<and>
         Panic msg kvs w = (Panics NilDereference, w) \<and>
         Debugf' msg kvs w = (Panics NilDereference, w) \<and>
         Infof' msg kvs w = (Panics NilDereference, w) \<and>
         Warnf' msg kvs w = (Panics NilDereference, w) \<and>
         Errorf' msg kvs w = (Panics NilDereference, w) \<and>
         Fatalf' msg kvs w = (Panics NilDereference, w) \<and>
         Panicf' msg kvs w = (Panics NilDereference, w)"
    using assms
    by (simp add: Info_def Debug_def Warn_def Error_def Fatal_def Panic_def Debugf'_def
          Infof'_def Warnf'_def Errorf'_def Fatalf'_def Panicf'_def via_logger_nil)
  have golog: "CheckErr_golog (Some e) msg p w = (Panics NilDereference, w)"
    using assms by (simp add: CheckErr_golog_def via_logger_nil)
  have doc: "CheckErr_doc dump (Some e) p msg kvs w = (Panics NilDereference, w)"
  proof -
    define kvs' where "kvs' = (if length kvs mod 2 \<noteq> 0
                      then kvs @ [VString ''<missing value>''] else kvs)"
    have "even (length kvs')" by (auto simp: kvs'_def)
    from loop_doc_nil [OF assms this, of dump "[VString ''error'', VError e]"]
    show ?thesis
      using assms unfolding CheckErr_doc_def kvs'_def [symmetric] Let_def
      by (auto simp: via_logger_nil)
  qed
  have part: "fst (CheckErr_part000 dump (Some e) p msg s w) = Panics NilDereference"
  proof -
    obtain kvs1 h1 where a: "(if len s mod 2 \<noteq> 0
                           then append1 (heap w) s (VString ''<missing value>'')
                           else (s, heap w)) = (kvs1, h1)"
      by (cases "(if len s mod 2 \<noteq> 0
                           then append1 (heap w) s (VString ''<missing value>'')
                           else (s, heap w))") blast
    have "GetLogger (w\<lparr>heap := h1\<rparr>) = None"
      using assms by (simp add: GetLogger_def)
    from loop_part000_nil [OF this, of dump kvs1 1]
    show ?thesis
      unfolding CheckErr_part000_def a Let_def
      by (auto simp: via_logger_nil)
  qed
  show ?thesis
    using funs golog doc part by (simp add: GetLogger_def start_def)
qed

theorem uninitialised_logger_panics_witness:
  "GetLogger (start [[VString ''resp'', VResponse 7]] :: nat world) = None \<and>
   Info ''hello'' [] (start [[VString ''resp'', VResponse 7]] :: nat world)
     = (Panics NilDereference, start [[VString ''resp'', VResponse 7]]) \<and>
   CheckErr_golog (Some (GoError ''boom'')) ''request failed'' False
       (start [[VString ''resp'', VResponse 7]] :: nat world)
     = (Panics NilDereference, start [[VString ''resp'', VResponse 7]]) \<and>
   fst (CheckErr_part000 (\<lambda>r. Inr ''HTTP/1.1 500'') (Some (GoError ''boom'')) False
          ''request failed'' \<lparr>base = 0, off = 0, len = 2, cap = 2\<rparr>
          (start [[VString ''resp'', VResponse 7]] :: nat world))
     = Panics NilDereference"
proof -
  have a: "GetLogger (start [[VString ''resp'', VResponse 7]] :: nat world) = None"
    by (simp add: GetLogger_def start_def)
  have b: "Info ''hello'' [] (start [[VString ''resp'', VResponse 7]] :: nat world)
     = (Panics NilDereference, start [[VString ''resp'', VResponse 7]])"
    using uninitialised_logger_panics [OF a, where msg = "''hello''" and kvs = "[]"
      and dump = "\<lambda>r. Inr ''HTTP/1.1 500''" and e = "GoError ''boom''" and p = False
      and s = "\<lparr>base = 0, off = 0, len = 2, cap = 2\<rparr>" and h = "[]"]
    by blast
  have c: "CheckErr_golog (Some (GoError ''boom'')) ''request failed'' False
       (start [[VString ''resp'', VResponse 7]] :: nat world)
     = (Panics NilDereference, start [[VString ''resp'', VResponse 7]]) \<and>
   fst (CheckErr_part000 (\<lambda>r. Inr ''HTTP/1.1 500'') (Some (GoError ''boom'')) False
          ''request failed'' \<lparr>base = 0, off = 0, len = 2, cap = 2\<rparr>
          (start [[VString ''resp'', VResponse 7]] :: nat world))
     = Panics NilDereference"
    using uninitialised_logger_panics [OF a, where msg = "''request failed''" and kvs = "[]"
      and dump = "\<lambda>r. Inr ''HTTP/1.1 500''" and e = "GoError ''boom''" and p = False
      and s = "\<lparr>base = 0, off = 0, len = 2, cap = 2\<rparr>" and h = "[]"]
    by blast
  show ?thesis using a b c by blast
qed

section \<open>A non-nil error, termination flag unset\<close>

text \<open>
  Claim C1. The claim asks for a return of true and exactly one error-level record whose
  fields include the error, also when a dump fails. The copy of src/log/log.go does
  neither. Called with a response whose dump fails (production mode, flag unset) it
  does not return at any depth of stack, since it logs the dump failure through
  \<open>CheckErr\<close> itself with the response as context. And with no context at all the one
  record it writes receives the slice \<open>["error", err]\<close> as a single argument, which has
  no key/value pair in it.
\<close>

theorem CheckErr_log_failed_dump_never_returns:
  "CheckErr_log depth closed_body (Some (GoError ''boom'')) False ''request failed''
     [VString ''resp'', VResponse 1] production = None \<and>
   CheckErr_log (Suc depth) status_500 (Some (GoError ''boom'')) False ''request failed''
     [] production
   = Some (Return True, production\<lparr>written :=
       [\<lparr>e_level = ErrorLevel, e_style = KeyVals, e_text = ''request failed'',
         e_args = [VSlice [VString ''error'', VError (GoError ''boom'')]]\<rparr>]\<rparr>) \<and>
   keyvals [VSlice [VString ''error'', VError (GoError ''boom'') :: nat val]] = []"
proof -
  have "CheckErr_log depth closed_body (Some (GoError ''boom'')) False ''request failed''
     [VString ''resp'', VResponse 1] production = None"
    by (rule CheckErr_log_failing_dump) (simp add: closed_body_def)
  then show ?thesis
    by (simp add: eval_defs)
qed

section \<open>The termination flag\<close>

text \<open>
  Claim C3, as the code has it. Let the handle be one that \<open>NewLogger\<close> built (with
  development flag \<open>d\<close>), the error be non-nil and no nil response pointer stand at a
  value position of the context. With the termination flag unset, the in-place copy and
  the copy of package golog write the message and the key/value set (in golog the message
  and the error as printf arguments) at error level and return true; before its record
  the in-place copy writes only the warnings of failed dumps. With the flag set, the
  in-place copy writes its record at panic level in the place of the error-level record
  and panics; the copy of package golog in development mode writes at DPanic level and
  panics; and the copy of src/log/log.go never returns a value, whatever its context is.
  Nothing is said here of the arguments of the records of src/log/log.go, of that copy
  with the flag unset, or of package golog in production mode with the flag set.
\<close>

theorem CheckErr_levels:
  assumes "NewLogger build d = Inr l" and "GetLogger w = Some l"
    and "valid_slice (heap w) s"
    and "VNilResponse \<notin> set (alternate (drop 1 (elems (heap w) s)))"
  shows
    "CheckErr_golog (Some e) message False w =
       (Return True,
        w\<lparr>written := written w
           @ [\<lparr>e_level = ErrorLevel, e_style = Printf, e_text = ''%s: %v'',
                e_args = [VString message, VError e]\<rparr>]\<rparr>) \<and>
     (d \<longrightarrow>
      CheckErr_golog (Some e) message True w =
        (Panics LoggerPanic,
         w\<lparr>written := written w
            @ [\<lparr>e_level = DPanicLevel, e_style = Printf, e_text = ''%s: %v'',
                 e_args = [VString message, VError e]\<rparr>]\<rparr>)) \<and>
     fst (CheckErr_part000 dump (Some e) shouldPanic message s w)
       = (if shouldPanic then Panics LoggerPanic else Return True) \<and>
     written (snd (CheckErr_part000 dump (Some e) shouldPanic message s w))
       = written w @ dump_warnings dump (pad (elems (heap w) s))
           @ [\<lparr>e_level = (if shouldPanic then PanicLevel else ErrorLevel), e_style = KeyVals,
                e_text = message,
                e_args = [VString ''error'', VError e]
                   @ on_values (dump_or_keep dump) (pad (elems (heap w) s))\<rparr>] \<and>
     CheckErr_log depth dump (Some e) True message kvs w \<noteq> Some (Return b, w')"
proof -
  have en: "Enabled (sugaredLogger l) k" if "k \<noteq> DebugLevel" for k
    using assms(1) that by (rule NewLogger_enabled)
  have dev: "Development (sugaredLogger l) = d"
    using assms(1) by (rule NewLogger_development)
  have lg: "logger w = Some l" using assms(2) by (simp add: GetLogger_def)
  have golog: "CheckErr_golog (Some e) message False w =
       (Return True,
        w\<lparr>written := written w
           @ [\<lparr>e_level = ErrorLevel, e_style = Printf, e_text = ''%s: %v'',
                e_args = [VString message, VError e]\<rparr>]\<rparr>)"
    by (simp add: CheckErr_golog_def via_logger_def GetLogger_def lg Errorf_def
          zap_log_def after_write_def en)
  have golog_dev: "CheckErr_golog (Some e) message True w =
        (Panics LoggerPanic,
         w\<lparr>written := written w
            @ [\<lparr>e_level = DPanicLevel, e_style = Printf, e_text = ''%s: %v'',
                 e_args = [VString message, VError e]\<rparr>]\<rparr>)" if d
    using that
    by (simp add: CheckErr_golog_def via_logger_def GetLogger_def lg DPanicf_def
          zap_log_def after_write_def en dev)
  obtain kvs' h where kh: "(if len s mod 2 \<noteq> 0
          then append1 (heap w) s (VString ''<missing value>'')
          else (s, heap w)) = (kvs', h)"
    by (cases "if len s mod 2 \<noteq> 0
          then append1 (heap w) s (VString ''<missing value>'')
          else (s, heap w)") blast
  have ep: "Enabled (sugaredLogger l) (if shouldPanic then PanicLevel else ErrorLevel)"
    by (simp add: en)
  note eff = CheckErr_part000_effect [OF assms(2) en [of WarnLevel, simplified] ep assms(3) kh
      assms(4), of dump e message]
  have part: "fst (CheckErr_part000 dump (Some e) shouldPanic message s w)
       = (if shouldPanic then Panics LoggerPanic else Return True) \<and>
     written (snd (CheckErr_part000 dump (Some e) shouldPanic message s w))
       = written w @ dump_warnings dump (pad (elems (heap w) s))
           @ [\<lparr>e_level = (if shouldPanic then PanicLevel else ErrorLevel), e_style = KeyVals,
                e_text = message,
                e_args = [VString ''error'', VError e]
                   @ on_values (dump_or_keep dump) (pad (elems (heap w) s))\<rparr>]"
    unfolding eff by simp
  have log: "CheckErr_log depth dump (Some e) True message kvs w \<noteq> Some (Return b, w')"
    by (rule CheckErr_log_flag_set)
  show ?thesis
    using golog golog_dev part log by blast
qed

text \<open>The theorem at calls in development mode.\<close>

theorem CheckErr_levels_witness:
  "NewLogger (\<lambda>c. None) True
     = Inr \<lparr>sugaredLogger = \<lparr>Level = DebugLevel, Encoding = ''console'', Development = True\<rparr>\<rparr> \<and>
   GetLogger (development\<lparr>heap := [[VString ''resp'', VResponse 1]]\<rparr>)
     = Some \<lparr>sugaredLogger = \<lparr>Level = DebugLevel, Encoding = ''console'', Development = True\<rparr>\<rparr> \<and>
   valid_slice (heap (development\<lparr>heap := [[VString ''resp'', VResponse 1]]\<rparr>))
     \<lparr>base = 0, off = 0, len = 2, cap = 2\<rparr> \<and>
   VNilResponse \<notin> set (alternate (drop 1
     (elems (heap (development\<lparr>heap := [[VString ''resp'', VResponse 1]]\<rparr>))
        \<lparr>base = 0, off = 0, len = 2, cap = 2\<rparr>))) \<and>
   CheckErr_golog (Some (GoError ''boom'')) ''request failed'' False
       (development\<lparr>heap := [[VString ''resp'', VResponse 1]]\<rparr>)
     = (Return True,
        development\<lparr>heap := [[VString ''resp'', VResponse 1]],
          written :=
            [\<lparr>e_level = ErrorLevel, e_style = Printf, e_text = ''%s: %v'',
               e_args = [VString ''request failed'', VError (GoError ''boom'')]\<rparr>]\<rparr>) \<and>
   CheckErr_golog (Some (GoError ''boom'')) ''request failed'' True
       (development\<lparr>heap := [[VString ''resp'', VResponse 1]]\<rparr>)
     = (Panics LoggerPanic,
        development\<lparr>heap := [[VString ''resp'', VResponse 1]],
          written :=
            [\<lparr>e_level = DPanicLevel, e_style = Printf, e_text = ''%s: %v'',
               e_args = [VString ''request failed'', VError (GoError ''boom'')]\<rparr>]\<rparr>) \<and>
   fst (CheckErr_part000 status_500 (Some (GoError ''boom'')) True ''request failed''
          \<lparr>base = 0, off = 0, len = 2, cap = 2\<rparr>
          (development\<lparr>heap := [[VString ''resp'', VResponse 1]]\<rparr>))
     = Panics LoggerPanic \<and>
   written (snd (CheckErr_part000 status_500 (Some (GoError ''boom'')) True ''request failed''
          \<lparr>base = 0, off = 0, len = 2, cap = 2\<rparr>
          (development\<lparr>heap := [[VString ''resp'', VResponse 1]]\<rparr>)))
     = [\<lparr>e_level = PanicLevel, e_style = KeyVals, e_text = ''request failed'',
          e_args = [VString ''error'', VError (GoError ''boom''), VString ''resp'',
                    VString ''HTTP/1.1 500 Internal Server Error'']\<rparr>]"
proof -
  let ?w = "development\<lparr>heap := [[VString ''resp'', VResponse 1]]\<rparr>"
  let ?s = "\<lparr>base = 0, off = 0, len = 2, cap = 2\<rparr>"
  have h1: "NewLogger (\<lambda>c. None) True
     = Inr \<lparr>sugaredLogger = \<lparr>Level = DebugLevel, Encoding = ''console'', Development = True\<rparr>\<rparr>"
    by (simp add: eval_defs)
  have h2: "GetLogger ?w
     = Some \<lparr>sugaredLogger = \<lparr>Level = DebugLevel, Encoding = ''console'', Development = True\<rparr>\<rparr>"
    by (simp add: development_eq GetLogger_def)
  have h3: "valid_slice (heap ?w) ?s"
    by (simp add: valid_slice_def)
  have e: "elems (heap ?w) ?s = [VString ''resp'', VResponse 1]"
    by (simp add: elems_def)
  have h4: "VNilResponse \<notin> set (alternate (drop 1 (elems (heap ?w) ?s)))"
    unfolding e by simp
  have w0: "written development = []" by (simp add: development_eq)
  have g: "CheckErr_golog (Some (GoError ''boom'')) ''request failed'' False ?w
     = (Return True,
        development\<lparr>heap := [[VString ''resp'', VResponse 1]],
          written :=
            [\<lparr>e_level = ErrorLevel, e_style = Printf, e_text = ''%s: %v'',
               e_args = [VString ''request failed'', VError (GoError ''boom'')]\<rparr>]\<rparr>) \<and>
   CheckErr_golog (Some (GoError ''boom'')) ''request failed'' True ?w
     = (Panics LoggerPanic,
        development\<lparr>heap := [[VString ''resp'', VResponse 1]],
          written :=
            [\<lparr>e_level = DPanicLevel, e_style = Printf, e_text = ''%s: %v'',
               e_args = [VString ''request failed'', VError (GoError ''boom'')]\<rparr>]\<rparr>)"
    using CheckErr_levels [OF h1 h2 h3 h4, of "GoError ''boom''" "''request failed''"]
    by (simp add: w0)
  have p: "fst (CheckErr_part000 status_500 (Some (GoError ''boom'')) True ''request failed'' ?s ?w)
     = Panics LoggerPanic \<and>
   written (snd (CheckErr_part000 status_500 (Some (GoError ''boom'')) True ''request failed''
          ?s ?w))
     = [\<lparr>e_level = PanicLevel, e_style = KeyVals, e_text = ''request failed'',
          e_args = [VString ''error'', VError (GoError ''boom''), VString ''resp'',
                    VString ''HTTP/1.1 500 Internal Server Error'']\<rparr>]"
    using CheckErr_levels [OF h1 h2 h3 h4, of "GoError ''boom''" "''request failed''"
        status_500 True]
    unfolding e
    by (simp add: w0 pad_def dump_warnings_def dump_warning_def dump_or_keep_def status_500_def)
  show ?thesis
    using h1 h2 h3 h4 g p by blast
qed

text \<open>
  Claim C3 as stated fails: with the flag set the in-place copy writes one record, at
  panic level, and panics; there is no error-level record and no return of true.
\<close>

theorem CheckErr_part000_panic_only:
  "CheckErr_part000 status_500 (Some (GoError ''boom'')) True ''request failed''
     \<lparr>base = 0, off = 0, len = 2, cap = 2\<rparr>
     (production\<lparr>heap := [[VString ''resp'', VResponse 1]]\<rparr>)
   = (Panics LoggerPanic,
      production\<lparr>heap := [[VString ''resp'', VString ''HTTP/1.1 500 Internal Server Error'']],
        written :=
          [\<lparr>e_level = PanicLevel, e_style = KeyVals, e_text = ''request failed'',
             e_args = [VString ''error'', VError (GoError ''boom''), VString ''resp'',
                       VString ''HTTP/1.1 500 Internal Server Error'']\<rparr>]\<rparr>)"
  by (simp add: eval_defs CheckErr_part000_def elems_def slice_get_def slice_set_def
        loop_part000.simps)

section \<open>HTTP responses in the context\<close>

text \<open>
  Claim C4. In the copy of src/log/log.go the record does not get the dump as the field
  of its key: in the scenario of the specification (production mode, flag unset, one
  pair whose value is a response with status 500) the processed slice is passed to
  \<open>Errorw\<close> as one argument, so the record has a single argument and no key/value pair.
\<close>

theorem CheckErr_log_dump_not_a_field:
  "CheckErr_log (Suc (Suc depth)) status_500 (Some (GoError ''boom'')) False ''request failed''
     [VString ''resp'', VResponse 1] production
   = Some (Return True, production\<lparr>written :=
       [\<lparr>e_level = ErrorLevel, e_style = KeyVals, e_text = ''request failed'',
         e_args = [VSlice [VString ''error'', VError (GoError ''boom''), VString ''resp'',
                           VString ''HTTP/1.1 500 Internal Server Error'']]\<rparr>]\<rparr>) \<and>
   keyvals [VSlice [VString ''error'', VError (GoError ''boom''), VString ''resp'',
                   VString ''HTTP/1.1 500 Internal Server Error'' :: nat val]] = []"
  by (simp add: eval_defs)

text \<open>
  Claim C5. The in-place copy logs a failing dump at warning level but puts nothing in
  the place of the response: the error-level record still holds the response itself.
\<close>

theorem CheckErr_part000_failed_dump_keeps_response:
  "CheckErr_part000 closed_body (Some (GoError ''boom'')) False ''request failed''
     \<lparr>base = 0, off = 0, len = 2, cap = 2\<rparr>
     (production\<lparr>heap := [[VString ''resp'', VResponse 1]]\<rparr>)
   = (Return True, production\<lparr>heap := [[VString ''resp'', VResponse 1]], written :=
       [\<lparr>e_level = WarnLevel, e_style = KeyVals, e_text = ''Failed to dump HTTP response'',
         e_args = [VString ''error'', VError (GoError ''http: read on closed response body'')]\<rparr>,
        \<lparr>e_level = ErrorLevel, e_style = KeyVals, e_text = ''request failed'',
         e_args = [VString ''error'', VError (GoError ''boom''), VString ''resp'',
                   VResponse 1]\<rparr>]\<rparr>)"
  by (simp add: eval_defs CheckErr_part000_def elems_def slice_get_def loop_part000.simps)

section \<open>A context of odd length\<close>

text \<open>
  Claim C6. In the copy of src/log/log.go a key without a value does get the placeholder,
  but the record's arguments are not an even number of alternating keys and values: the
  padded slice arrives as one argument.
\<close>

theorem CheckErr_log_odd_context_one_argument:
  "CheckErr_log (Suc depth) status_500 (Some (GoError ''boom'')) False ''request failed''
     [VString ''user''] production
   = Some (Return True, production\<lparr>written :=
       [\<lparr>e_level = ErrorLevel, e_style = KeyVals, e_text = ''request failed'',
         e_args = [VSlice [VString ''error'', VError (GoError ''boom''), VString ''user'',
                           VString ''<missing value>'']]\<rparr>]\<rparr>) \<and>
   odd (length [VSlice [VString ''error'', VError (GoError ''boom''), VString ''user'',
                           VString ''<missing value>'' :: nat val]])"
  by (simp add: eval_defs)

section \<open>The caller's slice\<close>

text \<open>
  Claim C10, as the code has it. Let the error be non-nil, \<open>s\<close> the caller's slice and
  let the call return. Then it has returned true, and: if the length of \<open>s\<close> is even,
  or odd with spare capacity, the elements of \<open>s\<close> are the old ones with every response
  at a value position whose dump succeeds replaced by its dump, and everything else as
  it was; if the length is odd and equal to the capacity, \<open>append\<close> has moved the
  elements to a fresh array before the loop, and the elements of \<open>s\<close> are all as they
  were.
\<close>

theorem CheckErr_part000_caller_slice:
  assumes "valid_slice (heap w) s"
    and "CheckErr_part000 dump (Some e) shouldPanic message s w = (Return b, w')"
  shows "b \<and>
         (if even (len s) \<or> len s < cap s
          then elems (heap w') s = on_values (dump_or_keep dump) (elems (heap w) s)
          else elems (heap w') s = elems (heap w) s)"
proof -
  let ?xs = "elems (heap w) s"
  let ?f = "dump_or_keep dump"
  have l: "length ?xs = len s" using assms(1) by (rule length_elems)
  obtain kvs h where kh: "(if len s mod 2 \<noteq> 0
          then append1 (heap w) s (VString ''<missing value>'')
          else (s, heap w)) = (kvs, h)"
    by (cases "if len s mod 2 \<noteq> 0
          then append1 (heap w) s (VString ''<missing value>'')
          else (s, heap w)") blast
  from CheckErr_part000_returns [OF assms(1) kh assms(2)]
  have ret: b and hp: "heap w' = store h kvs (on_values ?f (pad ?xs))"
    by simp_all
  show ?thesis
  proof (cases "even (len s)")
    case True
    then have "kvs = s" "h = heap w" using kh by auto
    moreover have "pad ?xs = ?xs" using True l by (simp add: pad_def)
    ultimately show ?thesis
      using True ret hp assms(1) l by (simp add: elems_store)
  next
    case odd: False
    then have ap: "append1 (heap w) s (VString ''<missing value>'') = (kvs, h)"
      using kh by (auto simp: odd_iff_mod_2_eq_one)
    have px: "pad ?xs = ?xs @ [VString ''<missing value>'']"
      using odd l by (simp add: pad_def odd_iff_mod_2_eq_one)
    have ov: "on_values ?f (pad ?xs) = on_values ?f ?xs @ [VString ''<missing value>'']"
      unfolding px using odd l by (simp add: on_values_snoc dump_or_keep_def)
    show ?thesis
    proof (cases "len s < cap s")
      case True
      then have k: "kvs = s\<lparr>len := len s + 1\<rparr>"
        and h: "h = slice_set (heap w) s (len s) (VString ''<missing value>'')"
        using ap by (auto simp: append1_def)
      have vh: "valid_slice h s"
        using assms(1) unfolding h by (auto simp: valid_slice_def slice_set_def)
      have "elems (store h kvs (on_values ?f (pad ?xs))) s = take (len s) (on_values ?f (pad ?xs))"
        unfolding k using vh True l by (intro elems_store_prefix) (simp_all add: px)
      then show ?thesis
        using True ret hp l by (simp add: ov)
    next
      case False
      then have k: "kvs = \<lparr>base = length (heap w), off = 0, len = len s + 1, cap = len s + 1\<rparr>"
        and h: "h = heap w @ [?xs @ [VString ''<missing value>'']]"
        using ap by (auto simp: append1_def)
      have "store h kvs (on_values ?f (pad ?xs)) = heap w @ [on_values ?f (pad ?xs)]"
        unfolding k h using l by (simp add: store_def px)
      moreover have "base s < length (heap w)" using assms(1) by (simp add: valid_slice_def)
      ultimately show ?thesis
        using False odd ret hp by (simp add: elems_heap_append)
    qed
  qed
qed

text \<open>The theorem at a slice of three elements with capacity four.\<close>

theorem CheckErr_part000_caller_slice_witness:
  "valid_slice (heap (production\<lparr>heap := [[VString ''resp'', VResponse 1, VString ''user'', VNil]]\<rparr>))
     \<lparr>base = 0, off = 0, len = 3, cap = 4\<rparr> \<and>
   CheckErr_part000 status_500 (Some (GoError ''boom'')) False ''request failed''
       \<lparr>base = 0, off = 0, len = 3, cap = 4\<rparr>
       (production\<lparr>heap := [[VString ''resp'', VResponse 1, VString ''user'', VNil]]\<rparr>)
     = (Return True,
        production\<lparr>heap := [[VString ''resp'', VString ''HTTP/1.1 500 Internal Server Error'',
                                VString ''user'', VString ''<missing value>'']],
          written :=
            [\<lparr>e_level = ErrorLevel, e_style = KeyVals, e_text = ''request failed'',
               e_args = [VString ''error'', VError (GoError ''boom''), VString ''resp'',
                         VString ''HTTP/1.1 500 Internal Server Error'', VString ''user'',
                         VString ''<missing value>'']\<rparr>]\<rparr>) \<and>
   elems [[VString ''resp'', VString ''HTTP/1.1 500 Internal Server Error'',
           VString ''user'', VString ''<missing value>'' :: nat val]]
       \<lparr>base = 0, off = 0, len = 3, cap = 4\<rparr>
     = [VString ''resp'', VString ''HTTP/1.1 500 Internal Server Error'', VString ''user'']"
proof -
  let ?w = "production\<lparr>heap := [[VString ''resp'', VResponse 1, VString ''user'', VNil]]\<rparr>"
  let ?s = "\<lparr>base = 0, off = 0, len = 3, cap = 4\<rparr>"
  let ?w' = "production\<lparr>heap := [[VString ''resp'', VString ''HTTP/1.1 500 Internal Server Error'',
                                VString ''user'', VString ''<missing value>'']],
          written :=
            [\<lparr>e_level = ErrorLevel, e_style = KeyVals, e_text = ''request failed'',
               e_args = [VString ''error'', VError (GoError ''boom''), VString ''resp'',
                         VString ''HTTP/1.1 500 Internal Server Error'', VString ''user'',
                         VString ''<missing value>'']\<rparr>]\<rparr>"
  have h1: "valid_slice (heap ?w) ?s"
    by (simp add: valid_slice_def)
  have h2: "CheckErr_part000 status_500 (Some (GoError ''boom'')) False ''request failed'' ?s ?w
     = (Return True, ?w')"
    by (simp add: eval_defs CheckErr_part000_def append1_def elems_def slice_get_def
          slice_set_def loop_part000.simps)
  have e: "elems (heap ?w) ?s = [VString ''resp'', VResponse 1, VString ''user'']"
    by (simp add: elems_def)
  from CheckErr_part000_caller_slice [OF h1 h2]
  show ?thesis
    using h1 h2 unfolding e by (simp add: dump_or_keep_def status_500_def)
qed

text \<open>
  Claim C10 as stated fails at a slice of three elements with capacity three: the dump
  of the response succeeds, the call returns true, and the caller's slice still holds
  the response.
\<close>

theorem CheckErr_part000_full_slice_untouched:
  "status_500 1 = Inr ''HTTP/1.1 500 Internal Server Error'' \<and>
   fst (CheckErr_part000 status_500 (Some (GoError ''boom'')) False ''request failed''
          \<lparr>base = 0, off = 0, len = 3, cap = 3\<rparr>
          (production\<lparr>heap := [[VString ''resp'', VResponse 1, VString ''user'']]\<rparr>))
     = Return True \<and>
   elems (heap (snd (CheckErr_part000 status_500 (Some (GoError ''boom'')) False ''request failed''
             \<lparr>base = 0, off = 0, len = 3, cap = 3\<rparr>
             (production\<lparr>heap := [[VString ''resp'', VResponse 1, VString ''user'']]\<rparr>))))
       \<lparr>base = 0, off = 0, len = 3, cap = 3\<rparr>
     = [VString ''resp'', VResponse 1, VString ''user'']"
  by (simp add: eval_defs CheckErr_part000_def append1_def elems_def slice_get_def slice_set_def
        loop_part000.simps)

end
